theory Spec2Isabelle
  imports Complex_Main "HOL-Library.Sublist" "HOL-Library.AList" "HOL-Library.Char_ord"
begin

section \<open>Text and character classes\<close>

text \<open>
  The record parser \<^verbatim>\<open>parse_page_content_to_json\<close> of
  \<^verbatim>\<open>Sonnet4/complete_pdf_extrator.py\<close> takes one Python \<^verbatim>\<open>str\<close>. A text is
  modelled as a \<^typ>\<open>string\<close>; a \<^typ>\<open>char\<close> is read as the code point of the same
  number, so the texts covered are those over U+0000 .. U+00FF. The character classes
  below are Python's own classes restricted to that range.
\<close>

definition newline :: char where
  "newline = CHR 0x0A"

text \<open>\<^verbatim>\<open>\d\<close> of a \<^verbatim>\<open>str\<close> pattern: the decimal digits.\<close>

definition is_digit :: "char \<Rightarrow> bool" where
  "is_digit c = (CHR ''0'' \<le> c \<and> c \<le> CHR ''9'')"

text \<open>\<^verbatim>\<open>\w\<close> of a \<^verbatim>\<open>str\<close> pattern: alphanumeric characters and the underscore.\<close>

definition is_word :: "char \<Rightarrow> bool" where
  "is_word c =
     (is_digit c \<or> (CHR ''A'' \<le> c \<and> c \<le> CHR ''Z'') \<or> c = CHR ''_''
      \<or> (CHR ''a'' \<le> c \<and> c \<le> CHR ''z'')
      \<or> c = CHR 0xAA \<or> c = CHR 0xB2 \<or> c = CHR 0xB3 \<or> c = CHR 0xB5
      \<or> c = CHR 0xB9 \<or> c = CHR 0xBA \<or> (CHR 0xBC \<le> c \<and> c \<le> CHR 0xBE)
      \<or> (CHR 0xC0 \<le> c \<and> c \<le> CHR 0xD6) \<or> (CHR 0xD8 \<le> c \<and> c \<le> CHR 0xF6)
      \<or> CHR 0xF8 \<le> c)"

text \<open>The characters \<^verbatim>\<open>str.strip()\<close> removes.\<close>

definition is_space :: "char \<Rightarrow> bool" where
  "is_space c =
     ((CHR 0x09 \<le> c \<and> c \<le> CHR 0x0D) \<or> (CHR 0x1C \<le> c \<and> c \<le> CHR 0x20)
      \<or> c = CHR 0x85 \<or> c = CHR 0xA0)"

text \<open>\<^verbatim>\<open>str.lower\<close> and \<^verbatim>\<open>str.upper\<close> of one character. A lower-case letter is
  32 above its upper-case letter: the bit of value 32, clear in the upper-case ranges,
  is set, and cleared on the way back. The two characters whose upper case lies beyond
  U+00FF (U+00B5, U+00FF) are left as they are.\<close>

definition py_lower :: "char \<Rightarrow> char" where
  "py_lower c =
     (if (CHR ''A'' \<le> c \<and> c \<le> CHR ''Z'')
         \<or> (CHR 0xC0 \<le> c \<and> c \<le> CHR 0xDE \<and> c \<noteq> CHR 0xD7)
      then (case c of Char b0 b1 b2 b3 b4 b5 b6 b7 \<Rightarrow> Char b0 b1 b2 b3 b4 True b6 b7)
      else c)"

definition py_upper :: "char \<Rightarrow> char" where
  "py_upper c =
     (if (CHR ''a'' \<le> c \<and> c \<le> CHR ''z'')
         \<or> (CHR 0xE0 \<le> c \<and> c \<le> CHR 0xFE \<and> c \<noteq> CHR 0xF7)
      then (case c of Char b0 b1 b2 b3 b4 b5 b6 b7 \<Rightarrow> Char b0 b1 b2 b3 b4 False b6 b7)
      else c)"

definition py_strip :: "string \<Rightarrow> string" where
  "py_strip s = rev (dropWhile is_space (rev (dropWhile is_space s)))"

text \<open>\<^verbatim>\<open>s.replace(',', '')\<close>.\<close>

definition remove_commas :: "string \<Rightarrow> string" where
  "remove_commas s = filter (\<lambda>c. c \<noteq> CHR '','') s"

text \<open>\<^verbatim>\<open>s.split(sep)\<close> for a separator of one character: never an empty list.\<close>

fun py_split :: "char \<Rightarrow> string \<Rightarrow> string list" where
  "py_split sep [] = [[]]"
| "py_split sep (x # xs) =
     (if x = sep then [] # py_split sep xs
      else (case py_split sep xs of [] \<Rightarrow> [[x]] | p # ps \<Rightarrow> (x # p) # ps))"

text \<open>The slice \<^verbatim>\<open>xs[1:-1]\<close>.\<close>

definition inner :: "'a list \<Rightarrow> 'a list" where
  "inner xs = drop 1 (butlast xs)"

section \<open>Regular expressions as \<^verbatim>\<open>re\<close> matches them\<close>

text \<open>
  The patterns of the parser use literals, \<^verbatim>\<open>.\<close>, \<^verbatim>\<open>\d\<close>, \<^verbatim>\<open>\w\<close>, bracketed classes,
  the quantifiers \<^verbatim>\<open>+\<close>, \<^verbatim>\<open>+?\<close> and \<^verbatim>\<open>{n}\<close> on a single character, groups and
  one alternation. \<open>ms\<close> lists every way a pattern matches at the start of a text, in
  the order in which the backtracking matcher tries them: a greedy quantifier offers
  its longest run first, a lazy one its shortest, an alternation its left branch
  first. The match \<^verbatim>\<open>re\<close> reports is the first of the list.
\<close>

datatype flag = IGNORECASE | DOTALL

datatype item = Ch char | Rng char char | Digit | Word

datatype atom = Dot | Cls "item list"

datatype rx =
    Eps
  | Lit string
  | One atom
  | Rep nat atom
  | Plus atom
  | PlusLazy atom
  | Grp nat rx
  | Seq rx rx
  | Alt rx rx

fun cat :: "rx list \<Rightarrow> rx" where
  "cat [] = Eps"
| "cat [r] = r"
| "cat (r # rs) = Seq r (cat rs)"

fun item_ok :: "item \<Rightarrow> char \<Rightarrow> bool" where
  "item_ok (Ch a) c = (c = a)"
| "item_ok (Rng a b) c = (a \<le> c \<and> c \<le> b)"
| "item_ok Digit c = is_digit c"
| "item_ok Word c = is_word c"

fun atom_ok :: "flag list \<Rightarrow> atom \<Rightarrow> char \<Rightarrow> bool" where
  "atom_ok fl Dot c = (DOTALL \<in> set fl \<or> c \<noteq> newline)"
| "atom_ok fl (Cls its) c =
     (if IGNORECASE \<in> set fl
      then list_ex (\<lambda>i. item_ok i (py_lower c) \<or> item_ok i (py_upper c)) its
      else list_ex (\<lambda>i. item_ok i c) its)"

definition lit_eq :: "flag list \<Rightarrow> char \<Rightarrow> char \<Rightarrow> bool" where
  "lit_eq fl a c = (if IGNORECASE \<in> set fl then py_lower c = py_lower a else c = a)"

fun starts_with :: "flag list \<Rightarrow> string \<Rightarrow> string \<Rightarrow> bool" where
  "starts_with fl [] s = True"
| "starts_with fl (a # l) [] = False"
| "starts_with fl (a # l) (c # s) = (if lit_eq fl a c then starts_with fl l s else False)"

text \<open>The texts left after \<open>n\<close> characters of a class, after a greedy run and after a
  lazy run of it.\<close>

fun rep :: "(char \<Rightarrow> bool) \<Rightarrow> nat \<Rightarrow> string \<Rightarrow> string list" where
  "rep p 0 s = [s]"
| "rep p (Suc n) [] = []"
| "rep p (Suc n) (x # xs) = (if p x then rep p n xs else [])"

fun greedy :: "(char \<Rightarrow> bool) \<Rightarrow> string \<Rightarrow> string list" where
  "greedy p [] = []"
| "greedy p (x # xs) = (if p x then greedy p xs @ [xs] else [])"

fun lazy :: "(char \<Rightarrow> bool) \<Rightarrow> string \<Rightarrow> string list" where
  "lazy p [] = []"
| "lazy p (x # xs) = (if p x then xs # lazy p xs else [])"

type_synonym caps = "(nat \<times> string) list"

fun ms :: "flag list \<Rightarrow> rx \<Rightarrow> string \<times> caps \<Rightarrow> (string \<times> caps) list" where
  "ms fl Eps x = [x]"
| "ms fl (Lit l) (s, c) = (if starts_with fl l s then [(drop (length l) s, c)] else [])"
| "ms fl (One a) (s, c) = map (\<lambda>s'. (s', c)) (rep (atom_ok fl a) 1 s)"
| "ms fl (Rep n a) (s, c) = map (\<lambda>s'. (s', c)) (rep (atom_ok fl a) n s)"
| "ms fl (Plus a) (s, c) = map (\<lambda>s'. (s', c)) (greedy (atom_ok fl a) s)"
| "ms fl (PlusLazy a) (s, c) = map (\<lambda>s'. (s', c)) (lazy (atom_ok fl a) s)"
| "ms fl (Grp n r) (s, c) =
     map (\<lambda>(s', c'). (s', (n, take (length s - length s') s) # c')) (ms fl r (s, c))"
| "ms fl (Seq a b) x = concat (map (ms fl b) (ms fl a x))"
| "ms fl (Alt a b) x = ms fl a x @ ms fl b x"

text \<open>\<^verbatim>\<open>re.match\<close>: the first way the pattern matches at the start of the text, as the
  text left over and the groups captured.\<close>

definition match_at :: "flag list \<Rightarrow> rx \<Rightarrow> string \<Rightarrow> (string \<times> caps) option" where
  "match_at fl r s = (case ms fl r (s, []) of [] \<Rightarrow> None | m # _ \<Rightarrow> Some m)"

text \<open>\<^verbatim>\<open>re.search\<close>: the match at the leftmost position that has one.\<close>

fun search :: "flag list \<Rightarrow> rx \<Rightarrow> string \<Rightarrow> caps option" where
  "search fl r [] = map_option snd (match_at fl r [])"
| "search fl r (x # xs) =
     (case match_at fl r (x # xs) of Some m \<Rightarrow> Some (snd m) | None \<Rightarrow> search fl r xs)"

text \<open>\<^verbatim>\<open>re.findall\<close>: the matches from left to right, each search starting where the
  last match ended. After a match that consumed nothing the scan moves on by one
  character; no pattern of the parser can match the empty text.\<close>

function findall :: "flag list \<Rightarrow> rx \<Rightarrow> string \<Rightarrow> caps list" where
  "findall fl r s =
     (case match_at fl r s of
        Some (s', c) \<Rightarrow>
          c # (if length s' < length s then findall fl r s'
               else (case s of [] \<Rightarrow> [] | _ # xs \<Rightarrow> findall fl r xs))
      | None \<Rightarrow> (case s of [] \<Rightarrow> [] | _ # xs \<Rightarrow> findall fl r xs))"
  by pat_completeness auto
termination
  by (relation "measure (\<lambda>(fl, r, s). length s)") auto

text \<open>\<^verbatim>\<open>m.group(n)\<close>; a group that took no part in the match reads as the empty text,
  as in the tuples of \<^verbatim>\<open>re.findall\<close>.\<close>

definition group :: "caps \<Rightarrow> nat \<Rightarrow> string" where
  "group c n = (case map_of c n of None \<Rightarrow> [] | Some g \<Rightarrow> g)"

section \<open>\<^verbatim>\<open>float(str)\<close>\<close>

text \<open>
  \<^verbatim>\<open>float\<close> decides which texts are numbers, and a text that is none makes it raise
  \<^verbatim>\<open>ValueError\<close> (\<open>None\<close> here). It strips white space, allows an underscore between
  two digits, and reads a sign followed by \<^verbatim>\<open>inf\<close>, \<^verbatim>\<open>infinity\<close>, \<^verbatim>\<open>nan\<close> or a decimal
  numeral with an optional exponent. \<open>Finite q\<close> stands for the double nearest to the
  rational \<open>q\<close> the numeral denotes; rounding and the sign of zero are not modelled.
\<close>

datatype pyfloat = Finite rat | PosInf | NegInf | NaN

definition is_float_space :: "char \<Rightarrow> bool" where
  "is_float_space c =
     ((CHR 0x09 \<le> c \<and> c \<le> CHR 0x0D) \<or> c = CHR '' '' \<or> c = CHR 0x85 \<or> c = CHR 0xA0)"

fun underscores_ok :: "char \<Rightarrow> string \<Rightarrow> bool" where
  "underscores_ok prev [] = (prev \<noteq> CHR ''_'')"
| "underscores_ok prev (p # ps) =
     (if p = CHR ''_'' then is_digit prev \<and> underscores_ok p ps
      else \<not> (prev = CHR ''_'' \<and> \<not> is_digit p) \<and> underscores_ok p ps)"

definition digits_val :: "string \<Rightarrow> nat" where
  "digits_val ds = foldl (\<lambda>n c. 10 * n + (of_char c - 48)) 0 ds"

definition scale10 :: "nat \<Rightarrow> int \<Rightarrow> rat" where
  "scale10 m e = (if 0 \<le> e then of_nat m * 10 ^ nat e else of_nat m / 10 ^ nat (- e))"

definition is_sign :: "char \<Rightarrow> bool" where
  "is_sign c = (c = CHR ''+'' \<or> c = CHR ''-'')"

definition unsign :: "string \<Rightarrow> string" where
  "unsign s = (case s of [] \<Rightarrow> [] | c # r \<Rightarrow> if is_sign c then r else s)"

definition negative :: "string \<Rightarrow> bool" where
  "negative s = (case s of [] \<Rightarrow> False | c # r \<Rightarrow> c = CHR ''-'')"

definition exponent :: "string \<Rightarrow> int option" where
  "exponent s =
     (case s of
        [] \<Rightarrow> Some 0
      | e # r \<Rightarrow>
          if (e = CHR ''e'' \<or> e = CHR ''E'') \<and> unsign r \<noteq> [] \<and> list_all is_digit (unsign r)
          then Some (if negative r then - int (digits_val (unsign r))
                     else int (digits_val (unsign r)))
          else None)"

definition decimal :: "string \<Rightarrow> rat option" where
  "decimal u =
     (let ip = takeWhile is_digit u;
          r1 = dropWhile is_digit u;
          fp = (case r1 of [] \<Rightarrow> [] | d # r \<Rightarrow> if d = CHR ''.'' then takeWhile is_digit r else []);
          r2 = (case r1 of [] \<Rightarrow> [] | d # r \<Rightarrow> if d = CHR ''.'' then dropWhile is_digit r else r1)
      in if ip = [] \<and> fp = [] then None
         else (case exponent r2 of
                 None \<Rightarrow> None
               | Some e \<Rightarrow> Some (scale10 (digits_val (ip @ fp)) (e - int (length fp)))))"

definition py_float :: "string \<Rightarrow> pyfloat option" where
  "py_float s0 =
     (let s = rev (dropWhile is_float_space (rev (dropWhile is_float_space s0)))
      in if \<not> underscores_ok (CHR 0x00) s then None
         else
           (let t = filter (\<lambda>c. c \<noteq> CHR ''_'') s;
                w = map py_lower (unsign t)
            in if w = ''inf'' \<or> w = ''infinity''
               then Some (if negative t then NegInf else PosInf)
               else if w = ''nan'' then Some NaN
               else (case decimal (unsign t) of
                       None \<Rightarrow> None
                     | Some q \<Rightarrow> Some (Finite (if negative t then - q else q)))))"

section \<open>The patterns of the parser\<close>

definition digit :: atom where
  "digit = Cls [Digit]"

definition word :: atom where
  "word = Cls [Word]"

text \<open>\<^verbatim>\<open>[\d\.]\<close>, \<^verbatim>\<open>[\d\.e,]\<close>, \<^verbatim>\<open>[\d\-: ]\<close> and \<^verbatim>\<open>[A-Za-z]\<close>.\<close>

definition conc_cls :: atom where
  "conc_cls = Cls [Digit, Ch (CHR ''.'')]"

definition num_cls :: atom where
  "num_cls = Cls [Digit, Ch (CHR ''.''), Ch (CHR ''e''), Ch (CHR '','')]"

definition date_cls :: atom where
  "date_cls = Cls [Digit, Ch (CHR ''-''), Ch (CHR '':''), Ch (CHR '' '')]"

definition letter :: atom where
  "letter = Cls [Rng (CHR ''A'') (CHR ''Z''), Rng (CHR ''a'') (CHR ''z'')]"

text \<open>\<^verbatim>\<open># Document Analysis - (.+)\<close>\<close>

definition doc_title_rx :: rx where
  "doc_title_rx = cat [Lit ''# Document Analysis - '', Grp 1 (Plus Dot)]"

text \<open>\<^verbatim>\<open>\*\*Title:\*\* (.+)\<close>\<close>

definition title_rx :: rx where
  "title_rx = cat [Lit ''**Title:** '', Grp 1 (Plus Dot)]"

text \<open>\<^verbatim>\<open>QC Verified Protocols/(.+?) - Document Status\<close>\<close>

definition qc_rx :: rx where
  "qc_rx = cat [Lit ''QC Verified Protocols/'', Grp 1 (PlusLazy Dot), Lit '' - Document Status'']"

text \<open>\<^verbatim>\<open>Document Status: (\w+)\<close>\<close>

definition status_rx :: rx where
  "status_rx = cat [Lit ''Document Status: '', Grp 1 (Plus word)]"

text \<open>\<^verbatim>\<open>\*\*(\d{2}-[A-Za-z]{3}-\d{4} \d{2}:\d{2}:\d{2})\*\*\<close>\<close>

definition date_rx :: rx where
  "date_rx =
     cat [Lit ''**'',
          Grp 1 (cat [Rep 2 digit, Lit ''-'', Rep 3 letter, Lit ''-'', Rep 4 digit, Lit '' '',
                      Rep 2 digit, Lit '':'', Rep 2 digit, Lit '':'', Rep 2 digit]),
          Lit ''**'']"

text \<open>\<^verbatim>\<open>\*\*Wavelength Combination:\*\* (\w+)\<close>\<close>

definition wl_comb_rx :: rx where
  "wl_comb_rx = cat [Lit ''**Wavelength Combination:** '', Grp 1 (Plus word)]"

text \<open>\<^verbatim>\<open>\*\*Instrument:\*\* (.+)\<close>\<close>

definition instr_rx :: rx where
  "instr_rx = cat [Lit ''**Instrument:** '', Grp 1 (Plus Dot)]"

text \<open>\<^verbatim>\<open>\*\*ROM:\*\* (.+)\<close>\<close>

definition rom_rx :: rx where
  "rom_rx = cat [Lit ''**ROM:** '', Grp 1 (Plus Dot)]"

text \<open>\<^verbatim>\<open>\*\*Start Read:\*\* (.+)\<close>\<close>

definition start_read_rx :: rx where
  "start_read_rx = cat [Lit ''**Start Read:** '', Grp 1 (Plus Dot)]"

text \<open>\<^verbatim>\<open>\*\*Mean Temperature:\*\* ([\d\.]+)\<close> followed by the degree sign (U+00B0) and
  \<^verbatim>\<open>C\<close>.\<close>

definition degree_C :: string where
  "degree_C = [CHR 0xB0, CHR ''C'']"

definition temp_rx :: rx where
  "temp_rx = cat [Lit ''**Mean Temperature:** '', Grp 1 (Plus conc_cls), Lit degree_C]"

text \<open>\<^verbatim>\<open>\*\*Read By:\*\* (.+)\<close>, searched with \<^verbatim>\<open>re.IGNORECASE\<close>.\<close>

definition operator_rx :: rx where
  "operator_rx = cat [Lit ''**Read By:** '', Grp 1 (Plus Dot)]"

text \<open>\<^verbatim>\<open>- \*\*(A\d)\*\*: ([\d\.]+) Std - ([\d\.e,]+) \(Reduced: ([\d\.e,]+)\) - Date: ([\d\-: ]+)\<close>\<close>

definition stds_rx :: rx where
  "stds_rx =
     cat [Lit ''- **'', Grp 1 (cat [Lit ''A'', One digit]), Lit ''**: '',
          Grp 2 (Plus conc_cls), Lit '' Std - '', Grp 3 (Plus num_cls), Lit '' (Reduced: '',
          Grp 4 (Plus num_cls), Lit '') - Date: '', Grp 5 (Plus date_cls)]"

text \<open>\<^verbatim>\<open>- \*\*(B\d)\*\*: (.+?) - (?:(?P<val>[\d\.e,]+) \(Reduced: (?P<red>[\d\.e,]+)\) - Date: (?P<date>[\d\-: ]+)|Date: No Data)\<close>;
  the named groups are the groups 3, 4 and 5.\<close>

definition controls_rx :: rx where
  "controls_rx =
     cat [Lit ''- **'', Grp 1 (cat [Lit ''B'', One digit]), Lit ''**: '',
          Grp 2 (PlusLazy Dot), Lit '' - '',
          Alt (cat [Grp 3 (Plus num_cls), Lit '' (Reduced: '', Grp 4 (Plus num_cls),
                    Lit '') - Date: '', Grp 5 (Plus date_cls)])
              (Lit ''Date: No Data'')]"

text \<open>\<^verbatim>\<open>## Standards Table\n(.+?)\n\n\<close>, searched with \<^verbatim>\<open>re.DOTALL\<close>.\<close>

definition table_rx :: rx where
  "table_rx =
     cat [Lit (''## Standards Table'' @ [newline]), Grp 1 (PlusLazy Dot), Lit [newline, newline]]"

text \<open>\<^verbatim>\<open>## Key Calculations\n\*\*(.+)\*\*\<close>\<close>

definition key_calc_rx :: rx where
  "key_calc_rx =
     cat [Lit (''## Key Calculations'' @ [newline] @ ''**''), Grp 1 (Plus Dot), Lit ''**'']"

section \<open>The structured record\<close>

text \<open>
  The dictionaries the parser builds: the fixed outer layers are records, the
  dictionaries whose keys depend on the text (the three info blocks, a well, a table
  row) are association lists in insertion order, and a value stored in a well or a
  row is \<^verbatim>\<open>None\<close>, a \<^verbatim>\<open>str\<close> or a \<^verbatim>\<open>float\<close>.
\<close>

datatype py_error = ValueError | IndexError

datatype pyval = PNone | PStr string | PFloat pyfloat

type_synonym pydict = "(string \<times> pyval) list"

type_synonym strdict = "(string \<times> string) list"

record sample_data_rec =
  standard_curve_wells :: "pydict list"
  control_and_sample_wells :: "pydict list"

record standards_table_rec =
  headers :: "string list"
  data :: "pydict list"

record structured_record =
  document_info :: strdict
  instrument_settings :: strdict
  instrument_info :: strdict
  sample_data :: sample_data_rec
  standards_table :: standards_table_rec
  key_calculation :: "string option"
  full_content :: string

section \<open>\<^verbatim>\<open>parse_page_content_to_json\<close>\<close>

text \<open>An exception that leaves the function is the left summand of its result.\<close>

definition andthen :: "py_error + 'a \<Rightarrow> ('a \<Rightarrow> py_error + 'b) \<Rightarrow> py_error + 'b" where
  "andthen x f = (case x of Inl e \<Rightarrow> Inl e | Inr v \<Rightarrow> f v)"

text \<open>A \<^verbatim>\<open>for\<close> loop that appends one dictionary for each element and stops at the first
  exception.\<close>

fun map_err :: "('a \<Rightarrow> py_error + 'b) \<Rightarrow> 'a list \<Rightarrow> py_error + 'b list" where
  "map_err f [] = Inr []"
| "map_err f (x # xs) =
     andthen (f x) (\<lambda>y. andthen (map_err f xs) (\<lambda>ys. Inr (y # ys)))"

definition to_float :: "string \<Rightarrow> py_error + pyfloat" where
  "to_float s = (case py_float s of None \<Rightarrow> Inl ValueError | Some f \<Rightarrow> Inr f)"

text \<open>\<^verbatim>\<open>if m: d[key] = m.group(1).strip()\<close>, and the same without \<^verbatim>\<open>strip\<close>.\<close>

definition store_stripped :: "string \<Rightarrow> caps option \<Rightarrow> strdict \<Rightarrow> strdict" where
  "store_stripped key m d =
     (case m of None \<Rightarrow> d | Some c \<Rightarrow> AList.update key (py_strip (group c 1)) d)"

definition store_group :: "string \<Rightarrow> caps option \<Rightarrow> strdict \<Rightarrow> strdict" where
  "store_group key m d =
     (case m of None \<Rightarrow> d | Some c \<Rightarrow> AList.update key (group c 1) d)"

definition document_info_of :: "string \<Rightarrow> strdict" where
  "document_info_of page_content =
     (let d = [];
          d = store_stripped ''title'' (search [] doc_title_rx page_content) d;
          d = store_stripped ''document_title'' (search [] title_rx page_content) d;
          d = store_stripped ''qc_protocol'' (search [] qc_rx page_content) d;
          d = store_stripped ''status'' (search [] status_rx page_content) d;
          d = store_group ''date'' (search [] date_rx page_content) d
      in d)"

definition instrument_settings_of :: "string \<Rightarrow> strdict" where
  "instrument_settings_of page_content =
     store_group ''wavelength_combination'' (search [] wl_comb_rx page_content) []"

definition instrument_info_of :: "string \<Rightarrow> strdict" where
  "instrument_info_of page_content =
     (let d = [];
          d = store_stripped ''instrument'' (search [] instr_rx page_content) d;
          d = store_stripped ''rom'' (search [] rom_rx page_content) d;
          d = store_stripped ''start_read'' (search [] start_read_rx page_content) d;
          d = (case search [] temp_rx page_content of
                 None \<Rightarrow> d
               | Some c \<Rightarrow> AList.update ''mean_temperature'' (group c 1 @ degree_C) d);
          d = store_stripped ''operator'' (search [IGNORECASE] operator_rx page_content) d
      in d)"

text \<open>The body of the loop over the standard wells: three unguarded \<^verbatim>\<open>float\<close> calls.\<close>

definition std_well :: "caps \<Rightarrow> py_error + pydict" where
  "std_well c =
     andthen (to_float (group c 2)) (\<lambda>conc.
     andthen (to_float (remove_commas (group c 3))) (\<lambda>val.
     andthen (to_float (remove_commas (group c 4))) (\<lambda>red.
       Inr [(''well'', PStr (group c 1)),
            (''concentration'', PFloat conc),
            (''fluorescence_value'', PFloat val),
            (''reduced_value'', PFloat red),
            (''date'', PStr (group c 5))])))"

definition standard_curve_wells_of :: "string \<Rightarrow> py_error + pydict list" where
  "standard_curve_wells_of page_content = map_err std_well (findall [] stds_rx page_content)"

text \<open>\<^verbatim>\<open>float(val.replace(',', '')) if val else None\<close>\<close>

definition float_or_none :: "string \<Rightarrow> py_error + pyval" where
  "float_or_none v =
     (if v \<noteq> [] then andthen (to_float (remove_commas v)) (\<lambda>f. Inr (PFloat f)) else Inr PNone)"

definition control_well :: "caps \<Rightarrow> py_error + pydict" where
  "control_well c =
     andthen (float_or_none (group c 3)) (\<lambda>val.
     andthen (float_or_none (group c 4)) (\<lambda>red.
       Inr [(''well'', PStr (group c 1)),
            (''sample_type'', PStr (py_strip (group c 2))),
            (''fluorescence_value'', val),
            (''reduced_value'', red),
            (''date'', if group c 5 \<noteq> [] then PStr (group c 5) else PNone)]))"

definition control_and_sample_wells_of :: "string \<Rightarrow> py_error + pydict list" where
  "control_and_sample_wells_of page_content =
     map_err control_well (findall [] controls_rx page_content)"

text \<open>
  One pass of the loop over \<^verbatim>\<open>enumerate(headers)\<close>. The \<^verbatim>\<open>try\<close> reads
  \<^verbatim>\<open>cols[i]\<close> and converts it; the bare \<^verbatim>\<open>except\<close> stores \<^verbatim>\<open>cols[i]\<close> itself, so a
  cell that is no number is kept as a string, and an index beyond the row raises
  \<^verbatim>\<open>IndexError\<close> once more, this time outside any \<^verbatim>\<open>try\<close>.
\<close>

definition cell_value :: "string \<Rightarrow> pyval" where
  "cell_value cell =
     (case py_float (remove_commas cell) of Some f \<Rightarrow> PFloat f | None \<Rightarrow> PStr cell)"

fun build_row :: "string list \<Rightarrow> string list \<Rightarrow> nat \<Rightarrow> pydict \<Rightarrow> py_error + pydict" where
  "build_row [] cols i row = Inr row"
| "build_row (h # hs) cols i row =
     (if i < length cols
      then build_row hs cols (i + 1) (AList.update h (cell_value (cols ! i)) row)
      else Inl IndexError)"

text \<open>\<^verbatim>\<open>[c.strip() for c in line.split("|")[1:-1]]\<close>\<close>

definition cells :: "string \<Rightarrow> string list" where
  "cells line = map py_strip (inner (py_split (CHR ''|'') line))"

definition table_row :: "string list \<Rightarrow> string \<Rightarrow> py_error + pydict" where
  "table_row hdrs line = build_row hdrs (cells line) 0 []"

definition standards_table_of :: "string \<Rightarrow> py_error + standards_table_rec" where
  "standards_table_of page_content =
     (case search [DOTALL] table_rx page_content of
        None \<Rightarrow> Inr \<lparr>headers = [], data = []\<rparr>
      | Some c \<Rightarrow>
          (case py_split newline (py_strip (group c 1)) of
             [] \<Rightarrow> Inl IndexError
           | line0 # rest \<Rightarrow>
               andthen (map_err (table_row (cells line0)) (drop 2 (line0 # rest)))
                 (\<lambda>rows. Inr \<lparr>headers = cells line0, data = rows\<rparr>)))"

definition key_calculation_of :: "string \<Rightarrow> string option" where
  "key_calculation_of page_content =
     (case search [] key_calc_rx page_content of
        None \<Rightarrow> None
      | Some c \<Rightarrow> Some (py_strip (group c 1)))"

definition parse_page_content_to_json :: "string \<Rightarrow> py_error + structured_record" where
  "parse_page_content_to_json page_content =
     andthen (standard_curve_wells_of page_content) (\<lambda>stds.
     andthen (control_and_sample_wells_of page_content) (\<lambda>controls.
     andthen (standards_table_of page_content) (\<lambda>tbl.
       Inr \<lparr>document_info = document_info_of page_content,
            instrument_settings = instrument_settings_of page_content,
            instrument_info = instrument_info_of page_content,
            sample_data = \<lparr>standard_curve_wells = stds, control_and_sample_wells = controls\<rparr>,
            standards_table = tbl,
            key_calculation = key_calculation_of page_content,
            full_content = page_content\<rparr>)))"

text \<open>No pattern of the parser matches anywhere in the text.\<close>

definition no_pattern_matches :: "string \<Rightarrow> bool" where
  "no_pattern_matches page_content =
     (search [] doc_title_rx page_content = None \<and> search [] title_rx page_content = None
      \<and> search [] qc_rx page_content = None \<and> search [] status_rx page_content = None
      \<and> search [] date_rx page_content = None \<and> search [] wl_comb_rx page_content = None
      \<and> search [] instr_rx page_content = None \<and> search [] rom_rx page_content = None
      \<and> search [] start_read_rx page_content = None \<and> search [] temp_rx page_content = None
      \<and> search [IGNORECASE] operator_rx page_content = None
      \<and> findall [] stds_rx page_content = [] \<and> findall [] controls_rx page_content = []
      \<and> search [DOTALL] table_rx page_content = None
      \<and> search [] key_calc_rx page_content = None)"

text \<open>Texts used as examples.\<close>

definition short_row_text :: string where
  "short_row_text =
     ''## Standards Table'' @ [newline] @ ''| A | B |'' @ [newline] @ ''|---|---|'' @ [newline]
     @ ''| 1 |'' @ [newline, newline]"


definition error_page_text :: string where
  "error_page_text =
     [newline, newline] @ ''=== PAGE 1 ==='' @ [newline] @ ''Error analyzing page 1: timeout''"

section \<open>Lines\<close>

text \<open>\<^verbatim>\<open>"\n".join(lines)\<close>; every text is the join of the lines \<^verbatim>\<open>split("\n")\<close> gives.\<close>

fun py_join :: "string list \<Rightarrow> string" where
  "py_join [] = []"
| "py_join [l] = l"
| "py_join (l # ls) = l @ newline # py_join ls"

text \<open>A pattern that, searched with the given flags, cannot consume a line break.\<close>

fun nl_free :: "flag list \<Rightarrow> rx \<Rightarrow> bool" where
  "nl_free fl Eps = True"
| "nl_free fl (Lit l) = (\<forall>a \<in> set l. \<not> lit_eq fl a newline)"
| "nl_free fl (One a) = (\<not> atom_ok fl a newline)"
| "nl_free fl (Rep n a) = (\<not> atom_ok fl a newline)"
| "nl_free fl (Plus a) = (\<not> atom_ok fl a newline)"
| "nl_free fl (PlusLazy a) = (\<not> atom_ok fl a newline)"
| "nl_free fl (Grp n r) = nl_free fl r"
| "nl_free fl (Seq r1 r2) = (nl_free fl r1 \<and> nl_free fl r2)"
| "nl_free fl (Alt r1 r2) = (nl_free fl r1 \<and> nl_free fl r2)"

text \<open>The standard-curve line of the specification and the well it stands for.\<close>

definition std_line :: string where
  "std_line = ''- **A1**: 5.0 Std - 1,234.5 (Reduced: 1,200.0) - Date: 01-01-2024 10:00:00''"

definition std_record :: pydict where
  "std_record =
     [(''well'', PStr ''A1''),
      (''concentration'', PFloat (Finite 5)),
      (''fluorescence_value'', PFloat (Finite 1234.5)),
      (''reduced_value'', PFloat (Finite 1200)),
      (''date'', PStr ''01-01-2024 10:00:00'')]"



text \<open>A standard-curve line whose concentration has a thousands separator.\<close>

definition comma_line :: string where
  "comma_line = ''- **A1**: 1,000 Std - 5.0 (Reduced: 4.0) - Date: 01-01-2024 10:00:00''"

text \<open>The heading line of the standards table, and a table that ends the text.\<close>

definition table_heading :: string where
  "table_heading = ''## Standards Table'' @ [newline]"

text \<open>Some occurrence of the heading is followed, somewhere after it, by a blank
  line.\<close>

definition heading_then_blank :: "string \<Rightarrow> bool" where
  "heading_then_blank text =
     list_ex (\<lambda>s. prefix table_heading s
                  \<and> sublist [newline, newline] (drop (length table_heading) s))
             (suffixes text)"

definition unterminated_table_text :: string where
  "unterminated_table_text =
     ''## Standards Table'' @ [newline] @ ''| A | B |'' @ [newline] @ ''|---|---|'' @ [newline]
     @ ''| 1.5 | x |''"

text \<open>A text with a repeated standard-curve line, a repeated control line and a table
  with a repeated row, and the record the parser returns for it.\<close>

definition order_lines :: "string list" where
  "order_lines =
     [''- **A1**: 1 Std - 2 (Reduced: 3) - Date: 4'',
      ''- **A1**: 1 Std - 2 (Reduced: 3) - Date: 4'',
      ''- **B1**: S - Date: No Data'',
      ''- **B1**: S - Date: No Data'']"

definition order_text :: string where
  "order_text =
     py_join order_lines @ [newline] @ table_heading
     @ py_join [''| A |'', ''|---|'', ''| 1 |'', ''| 1 |''] @ [newline, newline]"

definition order_record :: structured_record where
  "order_record =
     \<lparr>document_info = [], instrument_settings = [], instrument_info = [],
      sample_data =
        \<lparr>standard_curve_wells =
           [[(''well'', PStr ''A1''), (''concentration'', PFloat (Finite 1)),
             (''fluorescence_value'', PFloat (Finite 2)),
             (''reduced_value'', PFloat (Finite 3)), (''date'', PStr ''4'')],
            [(''well'', PStr ''A1''), (''concentration'', PFloat (Finite 1)),
             (''fluorescence_value'', PFloat (Finite 2)),
             (''reduced_value'', PFloat (Finite 3)), (''date'', PStr ''4'')]],
         control_and_sample_wells =
           [[(''well'', PStr ''B1''), (''sample_type'', PStr ''S''),
             (''fluorescence_value'', PNone), (''reduced_value'', PNone), (''date'', PNone)],
            [(''well'', PStr ''B1''), (''sample_type'', PStr ''S''),
             (''fluorescence_value'', PNone), (''reduced_value'', PNone),
             (''date'', PNone)]]\<rparr>,
      standards_table =
        \<lparr>headers = [''A''],
         data = [[(''A'', PFloat (Finite 1))], [(''A'', PFloat (Finite 1))]]\<rparr>,
      key_calculation = None,
      full_content = order_text\<rparr>"

section \<open>Evaluation\<close>

declare findall.simps [simp del]

lemma rep_numeral_Nil: "rep p (numeral k) [] = []"
  by (simp add: numeral_eq_Suc)

lemma rep_numeral_Cons:
  "rep p (numeral k) (x # xs) = (if p x then rep p (pred_numeral k) xs else [])"
  by (simp add: numeral_eq_Suc)

lemmas cls_defs =
  is_digit_def is_word_def is_space_def is_float_space_def py_lower_def py_upper_def newline_def

lemmas float_defs =
  py_float_def decimal_def exponent_def unsign_def negative_def is_sign_def digits_val_def
  scale10_def Let_def

lemmas rx_defs =
  digit_def word_def conc_cls_def num_cls_def date_cls_def letter_def doc_title_rx_def
  title_rx_def qc_rx_def status_rx_def date_rx_def wl_comb_rx_def instr_rx_def rom_rx_def
  start_read_rx_def degree_C_def temp_rx_def operator_rx_def stds_rx_def controls_rx_def
  table_rx_def key_calc_rx_def lit_eq_def match_at_def group_def rep_numeral_Nil
  rep_numeral_Cons findall.simps

lemmas parse_defs =
  andthen_def to_float_def store_stripped_def store_group_def document_info_of_def
  instrument_settings_of_def instrument_info_of_def std_well_def standard_curve_wells_of_def
  float_or_none_def control_well_def control_and_sample_wells_of_def cell_value_def cells_def
  table_row_def standards_table_of_def key_calculation_of_def
  parse_page_content_to_json_def py_strip_def remove_commas_def inner_def

section \<open>The parser can raise\<close>

text \<open>
  C1. The claim is that the parser returns a record for every text, a table row
  shorter than the header row included. On such a row the loop over the headers reads
  \<^verbatim>\<open>cols[i]\<close> beyond the row, the bare \<^verbatim>\<open>except\<close> reads it again, and
  \<^verbatim>\<open>IndexError\<close> leaves the function.
\<close>

theorem short_row_raises:
  "parse_page_content_to_json short_row_text = Inl IndexError"
  by (simp add: short_row_text_def parse_defs rx_defs float_defs cls_defs)

text \<open>The \<^verbatim>\<open>float\<close> calls of the two well loops stand outside any \<^verbatim>\<open>try\<close>: a
  concentration the pattern accepts and \<^verbatim>\<open>float\<close> rejects raises \<^verbatim>\<open>ValueError\<close>.\<close>

lemma dot_concentration_raises:
  "parse_page_content_to_json ''- **A1**: . Std - 1 (Reduced: 1) - Date: 1'' = Inl ValueError"
  by (simp add: parse_defs rx_defs float_defs cls_defs)

section \<open>A text without matches\<close>

text \<open>
  C6. When none of the patterns matches, the parser returns, and the record it
  returns has three empty info blocks, two empty well lists, an empty table, no key
  calculation, and the text itself as \<^verbatim>\<open>full_content\<close>.
\<close>

theorem no_match_empty_record:
  assumes "no_pattern_matches page_content"
  shows "parse_page_content_to_json page_content =
           Inr \<lparr>document_info = [], instrument_settings = [], instrument_info = [],
                sample_data = \<lparr>standard_curve_wells = [], control_and_sample_wells = []\<rparr>,
                standards_table = \<lparr>headers = [], data = []\<rparr>,
                key_calculation = None,
                full_content = page_content\<rparr>"
  using assms
  by (simp add: no_pattern_matches_def parse_page_content_to_json_def andthen_def
      standard_curve_wells_of_def control_and_sample_wells_of_def standards_table_of_def
      document_info_of_def instrument_settings_of_def instrument_info_of_def
      key_calculation_of_def store_stripped_def store_group_def)

theorem no_match_empty_record_witness:
  "no_pattern_matches error_page_text
   \<and> parse_page_content_to_json error_page_text =
       Inr \<lparr>document_info = [], instrument_settings = [], instrument_info = [],
            sample_data = \<lparr>standard_curve_wells = [], control_and_sample_wells = []\<rparr>,
            standards_table = \<lparr>headers = [], data = []\<rparr>,
            key_calculation = None,
            full_content = error_page_text\<rparr>"
proof -
  have h: "no_pattern_matches error_page_text"
    by (simp add: no_pattern_matches_def error_page_text_def rx_defs cls_defs)
  show ?thesis
    using h no_match_empty_record [OF h] by simp
qed

section \<open>Matches stay within a line\<close>

lemma starts_with_prefix: "starts_with [] l s = prefix l s"
  by (induction "[]::flag list" l s rule: starts_with.induct) (simp_all add: lit_eq_def)

lemma rep_suffix: "s' \<in> set (rep p n s) \<Longrightarrow> suffix s' s"
  by (induction p n s rule: rep.induct) (auto simp: suffix_Cons split: if_splits)

lemma greedy_suffix: "s' \<in> set (greedy p s) \<Longrightarrow> suffix s' s"
  by (induction p s rule: greedy.induct) (auto simp: suffix_Cons split: if_splits)

lemma lazy_suffix: "s' \<in> set (lazy p s) \<Longrightarrow> suffix s' s"
  by (induction p s rule: lazy.induct) (auto simp: suffix_Cons split: if_splits)

lemma ms_suffix: "(s', c') \<in> set (ms fl r (s, c)) \<Longrightarrow> suffix s' s"
proof (induction r arbitrary: s c s' c')
  case (Lit l)
  then show ?case by (auto simp: suffix_drop split: if_splits)
next
  case (Seq r1 r2)
  then obtain s1 c1 where "(s1, c1) \<in> set (ms fl r1 (s, c))" "(s', c') \<in> set (ms fl r2 (s1, c1))"
    by auto
  then show ?case using Seq.IH suffix_order.trans by blast
qed (auto dest: rep_suffix greedy_suffix lazy_suffix)

lemma rep_local: "\<not> p nl \<Longrightarrow> rep p n (a @ nl # b) = (if n \<le> length a then map (\<lambda>s'. s' @ nl # b) (rep p n a) else [])"
proof (induction p n a rule: rep.induct)
  case (1 p s) then show ?case by simp
next
  case (2 p n) then show ?case by simp
next
  case (3 p n x xs) then show ?case by simp
qed

lemma rep_length: "s' \<in> set (rep p n s) \<Longrightarrow> n \<le> length s"
  by (induction p n s rule: rep.induct) (auto split: if_splits)

lemma rep_local': "\<not> p nl \<Longrightarrow> rep p n (a @ nl # b) = map (\<lambda>s'. s' @ nl # b) (rep p n a)"
proof (cases "n \<le> length a")
  case True
  assume "\<not> p nl" then show ?thesis using True by (simp add: rep_local)
next
  case False
  assume h: "\<not> p nl"
  have "rep p n a = []" using False rep_length[of _ p n a] by (cases "rep p n a") auto
  then show ?thesis using False h by (simp add: rep_local)
qed

lemma greedy_local: "\<not> p nl \<Longrightarrow> greedy p (a @ nl # b) = map (\<lambda>s'. s' @ nl # b) (greedy p a)"
  by (induction a) auto

lemma lazy_local: "\<not> p nl \<Longrightarrow> lazy p (a @ nl # b) = map (\<lambda>s'. s' @ nl # b) (lazy p a)"
  by (induction a) auto

lemma starts_with_local:
  "\<forall>x \<in> set l. \<not> lit_eq fl x nl \<Longrightarrow>
   starts_with fl l (a @ nl # b) = starts_with fl l a"
  by (induction fl l a rule: starts_with.induct) auto

lemma starts_with_length: "starts_with fl l s \<Longrightarrow> length l \<le> length s"
  by (induction fl l s rule: starts_with.induct) (auto split: if_splits)

lemma ms_local:
  "nl_free fl r \<Longrightarrow>
   ms fl r (a @ newline # b, c) = map (\<lambda>(s', c'). (s' @ newline # b, c')) (ms fl r (a, c))"
proof (induction r arbitrary: a c)
  case Eps
  then show ?case by simp
next
  case (Lit l)
  then show ?case by (simp add: starts_with_local starts_with_length)
next
  case (One a')
  then show ?case using rep_local' [of "atom_ok fl a'" newline 1 a b] by (simp add: comp_def)
next
  case (Rep n a')
  then show ?case by (simp add: rep_local' comp_def)
next
  case (Plus a')
  then show ?case by (simp add: greedy_local comp_def)
next
  case (PlusLazy a')
  then show ?case by (simp add: lazy_local comp_def)
next
  case (Grp n r)
  have "\<And>s' c'. (s', c') \<in> set (ms fl r (a, c)) \<Longrightarrow> length s' \<le> length a"
    using ms_suffix suffix_length_le by blast
  then show ?case using Grp by (auto simp: comp_def)
next
  case (Seq r1 r2)
  then show ?case by (auto simp: comp_def map_concat intro!: arg_cong [where f = concat])
next
  case (Alt r1 r2)
  then show ?case by simp
qed

lemma match_at_local:
  "nl_free fl r \<Longrightarrow>
   match_at fl r (a @ newline # b) = map_option (\<lambda>(s', c'). (s' @ newline # b, c')) (match_at fl r a)"
  by (simp add: match_at_def ms_local split: list.splits)

lemma match_at_suffix: "match_at fl r s = Some (s', c) \<Longrightarrow> suffix s' s"
  using ms_suffix [of s' c fl r s "[]"] by (auto simp: match_at_def split: list.splits)

lemma findall_hom:
  "nl_free [] r \<Longrightarrow> findall [] r (a @ newline # b) = findall [] r a @ findall [] r b"
proof (induction a rule: length_induct)
  case (1 a)
  note nf = \<open>nl_free [] r\<close>
  show ?case
  proof (cases "match_at [] r a")
    case None
    then have m: "match_at [] r (a @ newline # b) = None" using nf by (simp add: match_at_local)
    show ?thesis
    proof (cases a)
      case Nil
      then show ?thesis using None m findall.simps [of "[]" r "newline # b"] findall.simps [of "[]" r "[]"] by simp
    next
      case (Cons x xs)
      then have "findall [] r (xs @ newline # b) = findall [] r xs @ findall [] r b" using 1 nf by simp
      then show ?thesis using None m Cons findall.simps [of "[]" r "(x # xs) @ newline # b"] findall.simps [of "[]" r "x # xs"] by simp
    qed
  next
    case (Some m)
    obtain s' c where mm: "m = (s', c)" by (cases m)
    have m2: "match_at [] r (a @ newline # b) = Some (s' @ newline # b, c)" using Some mm nf by (simp add: match_at_local)
    have suf: "suffix s' a" using Some mm match_at_suffix by blast
    show ?thesis
    proof (cases "length s' < length a")
      case True
      then have "findall [] r (s' @ newline # b) = findall [] r s' @ findall [] r b" using 1 nf by simp
      then show ?thesis using True Some mm m2 findall.simps [of "[]" r "a @ newline # b"] findall.simps [of "[]" r a] by simp
    next
      case False
      then have eq: "s' = a" using suf by (metis suffix_length_le le_neq_implies_less suffix_def append_eq_append_conv append_Nil)
      show ?thesis
      proof (cases a)
        case Nil
        then show ?thesis using eq Some mm m2 findall.simps [of "[]" r "newline # b"] findall.simps [of "[]" r "[]"] by simp
      next
        case (Cons x xs)
        then have "findall [] r (xs @ newline # b) = findall [] r xs @ findall [] r b" using 1 nf by simp
        then show ?thesis using eq Cons Some mm m2 findall.simps [of "[]" r "(x # xs) @ newline # b"] findall.simps [of "[]" r "x # xs"] by simp
      qed
    qed
  qed
qed


lemma py_split_not_Nil: "py_split sep s \<noteq> []"
  by (induction s) (auto split: list.splits)

lemma py_join_split: "py_join (py_split newline s) = s"
proof (induction s)
  case Nil
  then show ?case by simp
next
  case (Cons x xs)
  show ?case
  proof (cases "x = newline")
    case True
    obtain p ps where "py_split newline xs = p # ps" using py_split_not_Nil by (cases "py_split newline xs") auto
    then show ?thesis using True Cons by simp
  next
    case False
    obtain p ps where e: "py_split newline xs = p # ps" using py_split_not_Nil by (cases "py_split newline xs") auto
    then show ?thesis using False Cons by (cases ps) auto
  qed
qed


lemma findall_join:
  assumes "nl_free [] r" "match_at [] r [] = None"
  shows "findall [] r (py_join ls) = concat (map (findall [] r) ls)"
proof (induction ls rule: py_join.induct)
  case 1
  then show ?case using assms(2) findall.simps [of "[]" r "[]"] by simp
next
  case (2 l)
  then show ?case by simp
next
  case (3 l v va)
  then show ?case using assms(1) by (simp add: findall_hom)
qed

lemma findall_lines:
  assumes "nl_free [] r" "match_at [] r [] = None"
  shows "findall [] r s = concat (map (findall [] r) (py_split newline s))"
  using findall_join [OF assms, of "py_split newline s"] by (simp add: py_join_split)

lemma map_err_Inr:
  "map_err f xs = Inr ys \<Longrightarrow> list_all2 (\<lambda>x y. f x = Inr y) xs ys"
proof (induction xs arbitrary: ys)
  case Nil
  then show ?case by simp
next
  case (Cons x xs)
  then show ?case by (auto simp: andthen_def split: sum.splits)
qed

lemma map_err_append:
  "map_err f (xs @ ys) =
     andthen (map_err f xs) (\<lambda>a. andthen (map_err f ys) (\<lambda>b. Inr (a @ b)))"
  by (induction xs) (auto simp: andthen_def split: sum.splits)

lemma map_err_concat:
  "map_err f (concat xss) = Inr ys \<Longrightarrow>
   \<exists>yss. list_all2 (\<lambda>xs zs. map_err f xs = Inr zs) xss yss \<and> ys = concat yss"
proof (induction xss arbitrary: ys)
  case Nil
  then show ?case by simp
next
  case (Cons xs xss)
  then obtain a b where a: "map_err f xs = Inr a" and b: "map_err f (concat xss) = Inr b" and y: "ys = a @ b"
    by (auto simp: map_err_append andthen_def split: sum.splits)
  from Cons.IH [OF b] obtain yss where "list_all2 (\<lambda>xs zs. map_err f xs = Inr zs) xss yss" "b = concat yss" by blast
  then have "list_all2 (\<lambda>xs zs. map_err f xs = Inr zs) (xs # xss) (a # yss) \<and> ys = concat (a # yss)"
    using a y by simp
  then show ?case by blast
qed

lemma nl_free_stds: "nl_free [] stds_rx"
  by (simp add: rx_defs cls_defs)

lemma nl_free_controls: "nl_free [] controls_rx"
  by (simp add: rx_defs cls_defs)

lemma stds_empty: "match_at [] stds_rx [] = None"
  by (simp add: rx_defs)

lemma controls_empty: "match_at [] controls_rx [] = None"
  by (simp add: rx_defs)

section \<open>The standard-curve line\<close>

lemma parse_std_wells:
  "parse_page_content_to_json page_content = Inr r \<Longrightarrow>
   standard_curve_wells_of page_content = Inr (standard_curve_wells (sample_data r))"
  by (auto simp: parse_page_content_to_json_def andthen_def split: sum.splits)

lemma parse_control_wells:
  "parse_page_content_to_json page_content = Inr r \<Longrightarrow>
   control_and_sample_wells_of page_content = Inr (control_and_sample_wells (sample_data r))"
  by (auto simp: parse_page_content_to_json_def andthen_def split: sum.splits)

lemma parse_table:
  "parse_page_content_to_json page_content = Inr r \<Longrightarrow>
   standards_table_of page_content = Inr (standards_table r)"
  by (auto simp: parse_page_content_to_json_def andthen_def split: sum.splits)

lemma findall_std_line:
  "findall [] stds_rx std_line =
     [[(5, ''01-01-2024 10:00:00''), (4, ''1,200.0''), (3, ''1,234.5''), (2, ''5.0''), (1, ''A1'')]]"
  by (simp add: std_line_def rx_defs cls_defs)

lemma std_well_std_line:
  "std_well [(5, ''01-01-2024 10:00:00''), (4, ''1,200.0''), (3, ''1,234.5''), (2, ''5.0''), (1, ''A1'')]
     = Inr std_record"
  by (simp add: std_record_def parse_defs group_def float_defs cls_defs)

lemma line_match_in_wells:
  assumes nf: "nl_free [] rx" and e: "match_at [] rx [] = None"
    and l: "line \<in> set (py_split newline page_content)"
    and c: "c \<in> set (findall [] rx line)"
    and m: "map_err f (findall [] rx page_content) = Inr ws"
  shows "\<exists>w \<in> set ws. f c = Inr w"
proof -
  have "c \<in> set (findall [] rx page_content)"
    using findall_lines [OF nf e, of page_content] l c by auto
  then show ?thesis
    using map_err_Inr [OF m] by (auto simp: list_all2_conv_all_nth in_set_conv_nth)
qed

text \<open>
  C3. Whenever the text has the line
  \<^verbatim>\<open>- **A1**: 5.0 Std - 1,234.5 (Reduced: 1,200.0) - Date: 01-01-2024 10:00:00\<close>
  among its lines and the parser returns, the record with well \<^verbatim>\<open>A1\<close>, concentration
  5.0, fluorescence value 1234.5, reduced value 1200.0 and that date is among the
  standard-curve wells: the commas of the two values are removed before \<^verbatim>\<open>float\<close>
  reads them.
\<close>

theorem std_line_record:
  assumes "std_line \<in> set (py_split newline page_content)"
    and "parse_page_content_to_json page_content = Inr r"
  shows "std_record \<in> set (standard_curve_wells (sample_data r))"
proof -
  have m: "map_err std_well (findall [] stds_rx page_content) = Inr (standard_curve_wells (sample_data r))"
    using parse_std_wells [OF assms(2)] by (simp add: standard_curve_wells_of_def)
  have "\<exists>w \<in> set (standard_curve_wells (sample_data r)).
          std_well [(5, ''01-01-2024 10:00:00''), (4, ''1,200.0''), (3, ''1,234.5''), (2, ''5.0''), (1, ''A1'')] = Inr w"
    by (rule line_match_in_wells [OF nl_free_stds stds_empty assms(1) _ m]) (simp add: findall_std_line)
  then show ?thesis unfolding std_well_std_line by auto
qed

theorem std_line_record_witness:
  "std_line \<in> set (py_split newline std_line)
   \<and> parse_page_content_to_json std_line =
       Inr \<lparr>document_info = [], instrument_settings = [], instrument_info = [],
            sample_data = \<lparr>standard_curve_wells = [std_record], control_and_sample_wells = []\<rparr>,
            standards_table = \<lparr>headers = [], data = []\<rparr>,
            key_calculation = None,
            full_content = std_line\<rparr>
   \<and> std_record \<in> set [std_record]"
proof -
  have a: "std_line \<in> set (py_split newline std_line)"
    by (simp add: std_line_def cls_defs)
  have b: "parse_page_content_to_json std_line =
       Inr \<lparr>document_info = [], instrument_settings = [], instrument_info = [],
            sample_data = \<lparr>standard_curve_wells = [std_record], control_and_sample_wells = []\<rparr>,
            standards_table = \<lparr>headers = [], data = []\<rparr>,
            key_calculation = None,
            full_content = std_line\<rparr>"
    by (simp add: std_line_def std_record_def parse_defs rx_defs float_defs cls_defs)
  show ?thesis
    using a b std_line_record [OF a b] by simp
qed

section \<open>Searching and backtracking\<close>

lemma starts_with_prefix_cs: "IGNORECASE \<notin> set fl \<Longrightarrow> starts_with fl l s = prefix l s"
  by (induction fl l s rule: starts_with.induct) (simp_all add: lit_eq_def)

lemma match_at_hd: "ms fl r (s, []) = m # rest \<Longrightarrow> match_at fl r s = Some m"
  by (simp add: match_at_def)

lemma match_at_Nil: "ms fl r (s, []) = [] \<Longrightarrow> match_at fl r s = None"
  by (simp add: match_at_def)

lemma ms_lit_fail: "\<not> starts_with fl l s \<Longrightarrow> ms fl (Seq (Lit l) r) (s, c) = []"
  by simp

lemma ms_lit_ok: "starts_with fl l s \<Longrightarrow> ms fl (Seq (Lit l) r) (s, c) = ms fl r (drop (length l) s, c)"
  by simp

lemma search_hit: "match_at fl r s = Some m \<Longrightarrow> search fl r s = Some (snd m)"
  by (cases s) auto

lemma search_skip:
  "(\<And>j. j < length pre \<Longrightarrow> match_at fl r (drop j (pre @ s)) = None) \<Longrightarrow>
   search fl r (pre @ s) = search fl r s"
proof (induction pre)
  case Nil
  then show ?case by simp
next
  case (Cons x pre)
  have "match_at fl r ((x # pre) @ s) = None" using Cons.prems [of 0] by simp
  moreover have "search fl r (pre @ s) = search fl r s"
  proof (rule Cons.IH)
    fix j assume "j < length pre"
    then show "match_at fl r (drop j (pre @ s)) = None" using Cons.prems [of "Suc j"] by simp
  qed
  ultimately show ?case by simp
qed

lemma search_None:
  "(\<And>j. j \<le> length s \<Longrightarrow> match_at fl r (drop j s) = None) \<Longrightarrow> search fl r s = None"
proof (induction s)
  case Nil
  then show ?case using Nil [of 0] by simp
next
  case (Cons x s)
  have "match_at fl r (x # s) = None" using Cons.prems [of 0] by simp
  moreover have "search fl r s = None"
  proof (rule Cons.IH)
    fix j assume "j \<le> length s"
    then show "match_at fl r (drop j s) = None" using Cons.prems [of "Suc j"] by simp
  qed
  ultimately show ?case by simp
qed

lemma concat_lazy_first:
  assumes "list_all p u" "u \<noteq> []" "\<And>k. 0 < k \<Longrightarrow> k < length u \<Longrightarrow> f (drop k u @ rest) = []"
  shows "concat (map f (lazy p (u @ rest))) = f rest @ concat (map f (lazy p rest))"
  using assms
proof (induction u)
  case Nil
  then show ?case by simp
next
  case (Cons x u)
  show ?case
  proof (cases "u = []")
    case True
    then show ?thesis using Cons.prems(1) by simp
  next
    case False
    have p: "list_all p u" using Cons.prems(1) by simp
    have z: "f (u @ rest) = []" using Cons.prems(3) [of 1] False by simp
    have "concat (map f (lazy p (u @ rest))) = f rest @ concat (map f (lazy p rest))"
    proof (rule Cons.IH [OF p False])
      fix k assume "0 < k" "k < length u"
      then show "f (drop k u @ rest) = []" using Cons.prems(3) [of "Suc k"] by simp
    qed
    then show ?thesis using Cons.prems(1) z by simp
  qed
qed

lemma ms_grp_lazy:
  "ms fl (Seq (Grp n (PlusLazy a)) tail) (s, c) =
     concat (map (\<lambda>s'. ms fl tail (s', (n, take (length s - length s') s) # c))
                 (lazy (atom_ok fl a) s))"
  by (simp add: comp_def)

lemma grp_lazy_first:
  assumes "list_all (atom_ok fl a) u" "u \<noteq> []"
    and "\<And>k c'. 0 < k \<Longrightarrow> k < length u \<Longrightarrow> ms fl tail (drop k u @ rest, c') = []"
  shows "\<exists>more. ms fl (Seq (Grp n (PlusLazy a)) tail) (u @ rest, c) =
           ms fl tail (rest, (n, u) # c) @ more"
proof -
  let ?f = "\<lambda>s'. ms fl tail (s', (n, take (length (u @ rest) - length s') (u @ rest)) # c)"
  have h: "concat (map ?f (lazy (atom_ok fl a) (u @ rest))) =
          ?f rest @ concat (map ?f (lazy (atom_ok fl a) rest))"
    by (rule concat_lazy_first [OF assms(1,2)]) (use assms(3) in simp)
  have fr: "?f rest = ms fl tail (rest, (n, u) # c)" by simp
  show ?thesis unfolding ms_grp_lazy h fr by blast
qed

lemma greedy_run:
  "list_all p v \<Longrightarrow> v \<noteq> [] \<Longrightarrow> rest = [] \<or> \<not> p (hd rest) \<Longrightarrow>
   \<exists>more. greedy p (v @ rest) = rest # more"
proof (induction v)
  case Nil
  then show ?case by simp
next
  case (Cons x v)
  show ?case
  proof (cases "v = []")
    case True
    have "greedy p rest = []" using Cons.prems(3) by (cases rest) auto
    then show ?thesis using True Cons.prems(1) by simp
  next
    case False
    then obtain more where "greedy p (v @ rest) = rest # more" using Cons by auto
    then show ?thesis using Cons.prems(1) by simp
  qed
qed

lemma ms_grp_greedy_run:
  assumes "list_all (atom_ok fl a) v" "v \<noteq> []" "rest = [] \<or> \<not> atom_ok fl a (hd rest)"
  shows "\<exists>more. ms fl (Grp n (Plus a)) (v @ rest, c) = (rest, (n, v) # c) # more"
proof -
  obtain more where "greedy (atom_ok fl a) (v @ rest) = rest # more"
    using greedy_run [OF assms] by blast
  then show ?thesis by simp
qed

section \<open>Rows of the standards table\<close>

lemma build_row_zip:
  "i + length hdrs \<le> length cols \<Longrightarrow>
   build_row hdrs cols i row =
     Inr (fold (\<lambda>(h, c). AList.update h (cell_value c)) (zip hdrs (drop i cols)) row)"
proof (induction hdrs arbitrary: i row)
  case Nil
  then show ?case by simp
next
  case (Cons h hs)
  then have i: "i < length cols" by simp
  have "drop i cols = cols ! i # drop (Suc i) cols" using i by (simp add: Cons_nth_drop_Suc)
  then show ?case using Cons i by simp
qed

lemma build_row_short:
  "i \<le> length cols \<Longrightarrow> length cols < i + length hdrs \<Longrightarrow>
   build_row hdrs cols i row = Inl IndexError"
proof (induction hdrs arbitrary: i row)
  case Nil
  then show ?case by simp
next
  case (Cons h hs)
  then show ?case by simp
qed

lemma fold_update_distinct:
  "distinct (map fst row @ hs) \<Longrightarrow> length hs = length vs \<Longrightarrow>
   fold (\<lambda>(h, c). AList.update h (f c)) (zip hs vs) row = row @ zip hs (map f vs)"
proof (induction hs arbitrary: vs row)
  case Nil
  then show ?case by simp
next
  case (Cons h hs)
  then obtain v vs' where vs: "vs = v # vs'" by (cases vs) auto
  have u: "AList.update h (f v) row = row @ [(h, f v)]"
    using Cons.prems(1) by (induction row) auto
  have "distinct (map fst (row @ [(h, f v)]) @ hs)" using Cons.prems(1) by auto
  then show ?case using Cons vs u by simp
qed

text \<open>
  C2, as amended. The claim has two parts. A row with fewer cells than headers is
  claimed to give a mapping with keys missing; the code raises \<^verbatim>\<open>IndexError\<close> on it,
  as the example after the theorem shows. What holds is the part on rows that cover
  the headers:
  every header is given the value of the cell at its position, a later header of the
  same name overwriting an earlier one, and cells beyond the headers are ignored.
\<close>

theorem row_covers_headers:
  assumes "length hdrs \<le> length (cells line)"
  shows "table_row hdrs line =
           Inr (fold (\<lambda>(h, c). AList.update h (cell_value c)) (zip hdrs (cells line)) [])
         \<and> (distinct hdrs \<longrightarrow>
              table_row hdrs line =
                Inr (zip hdrs (map cell_value (take (length hdrs) (cells line)))))
         \<and> build_row hdrs (cells line @ extra) 0 [] = table_row hdrs line"
proof -
  have a: "table_row hdrs line =
           Inr (fold (\<lambda>(h, c). AList.update h (cell_value c)) (zip hdrs (cells line)) [])"
    using assms build_row_zip [of 0 hdrs "cells line" "[]"] by (simp add: table_row_def)
  have z: "zip hdrs (cells line) = zip hdrs (take (length hdrs) (cells line))"
    by (metis append_take_drop_id assms length_take min.absorb2 zip_append1 take_all  order_refl zip_Nil append_Nil2 drop_eq_Nil  )
  have "distinct hdrs \<Longrightarrow> fold (\<lambda>(h, c). AList.update h (cell_value c)) (zip hdrs (take (length hdrs) (cells line))) []
          = [] @ zip hdrs (map cell_value (take (length hdrs) (cells line)))"
    by (rule fold_update_distinct) (use assms in auto)
  then have b: "distinct hdrs \<longrightarrow>
              table_row hdrs line =
                Inr (zip hdrs (map cell_value (take (length hdrs) (cells line))))"
    using a z by simp
  have "zip hdrs (cells line @ extra) = zip hdrs (cells line)"
    using assms by (simp add: zip_append2)
  then have c: "build_row hdrs (cells line @ extra) 0 [] = table_row hdrs line"
    using a assms build_row_zip [of 0 hdrs "cells line @ extra" "[]"] by simp
  show ?thesis using a b c by blast
qed

theorem row_covers_headers_witness:
  "length [''A'', ''B''] \<le> length (cells ''| 1.5 | x | more |'')
   \<and> table_row [''A'', ''B''] ''| 1.5 | x | more |''
       = Inr [(''A'', PFloat (Finite 1.5)), (''B'', PStr ''x'')]"
proof -
  have c: "cells ''| 1.5 | x | more |'' = [''1.5'', ''x'', ''more'']"
    by (simp add: cells_def inner_def py_strip_def cls_defs)
  have h: "length [''A'', ''B''] \<le> length (cells ''| 1.5 | x | more |'')"
    by (simp add: c)
  have v: "cell_value ''1.5'' = PFloat (Finite 1.5)" "cell_value ''x'' = PStr ''x''"
    by (simp_all add: cell_value_def remove_commas_def float_defs cls_defs)
  have d: "distinct [''A'', ''B'']" by simp
  have t: "table_row [''A'', ''B''] ''| 1.5 | x | more |'' =
      Inr (zip [''A'', ''B''] (map cell_value (take (length [''A'', ''B'']) (cells ''| 1.5 | x | more |''))))"
    using row_covers_headers [OF h] d by blast
  show ?thesis
    unfolding t c using v by simp
qed

theorem short_row_no_mapping:
  "length (cells ''| 1 |'') < length [''A'', ''B'']
   \<and> table_row [''A'', ''B''] ''| 1 |'' = Inl IndexError"
  by (simp add: table_row_def cells_def inner_def py_strip_def cls_defs cell_value_def
      remove_commas_def float_defs)

section \<open>Control wells without data\<close>

lemma prefix_short: "prefix xs (ys @ zs) \<Longrightarrow> length xs \<le> length ys \<Longrightarrow> prefix xs ys"
  by (auto simp: prefix_append)








section \<open>A comma in the concentration\<close>

lemma concat_map_Nil: "(\<And>x. x \<in> set xs \<Longrightarrow> f x = []) \<Longrightarrow> concat (map f xs) = []"
  by (induction xs) auto

lemma ms_seq_single: "ms fl a x = [y] \<Longrightarrow> ms fl (Seq a b) x = ms fl b y"
  by simp

lemma findall_miss:
  "match_at fl r s = None \<Longrightarrow> findall fl r s = (case s of [] \<Rightarrow> [] | _ # xs \<Rightarrow> findall fl r xs)"
  using findall.simps [of fl r s] by simp

lemma findall_skip:
  "(\<And>j. j < length pre \<Longrightarrow> match_at fl r (drop j (pre @ s)) = None) \<Longrightarrow>
   findall fl r (pre @ s) = findall fl r s"
proof (induction pre)
  case Nil
  then show ?case by simp
next
  case (Cons x pre)
  have "match_at fl r ((x # pre) @ s) = None" using Cons.prems [of 0] by simp
  then have "findall fl r ((x # pre) @ s) = findall fl r (pre @ s)" by (simp add: findall_miss)
  moreover have "findall fl r (pre @ s) = findall fl r s"
  proof (rule Cons.IH)
    fix j assume "j < length pre"
    then show "match_at fl r (drop j (pre @ s)) = None" using Cons.prems [of "Suc j"] by simp
  qed
  ultimately show ?case by simp
qed

lemma findall_never:
  "(\<And>j. j \<le> length s \<Longrightarrow> match_at fl r (drop j s) = None) \<Longrightarrow> findall fl r s = []"
proof (induction s)
  case Nil
  then show ?case using Nil [of 0] by (simp add: findall_miss)
next
  case (Cons x s)
  have "match_at fl r (x # s) = None" using Cons.prems [of 0] by simp
  moreover have "findall fl r s = []"
  proof (rule Cons.IH)
    fix j assume "j \<le> length s"
    then show "match_at fl r (drop j s) = None" using Cons.prems [of "Suc j"] by simp
  qed
  ultimately show ?case by (simp add: findall_miss)
qed

lemma stds_needs_dash: "\<not> prefix ''- **'' s \<Longrightarrow> match_at [] stds_rx s = None"
  by (rule match_at_Nil) (simp add: stds_rx_def starts_with_prefix)

lemma stds_needs_star: "CHR ''*'' \<notin> set s \<Longrightarrow> findall [] stds_rx s = []"
proof (rule findall_never)
  fix j assume "CHR ''*'' \<notin> set s"
  then have "CHR ''*'' \<notin> set (drop j s)" using in_set_dropD by fastforce
  then have "\<not> prefix ''- **'' (drop j s)" by (auto simp: prefix_def)
  then show "match_at [] stds_rx (drop j s) = None" by (rule stds_needs_dash)
qed

lemma greedy_stops:
  assumes "list_all p c1" "\<not> p x" "s' \<in> set (greedy p (c1 @ x # rest))"
  shows "\<exists>y ys. s' = y # ys \<and> (p y \<or> y = x)"
proof -
  obtain t where t: "t \<in> set (greedy p c1)" "s' = t @ x # rest"
    using assms(2,3) by (auto simp: greedy_local)
  have "suffix t c1" using t(1) by (rule greedy_suffix)
  then have "set t \<subseteq> set c1" by (rule set_mono_suffix)
  then have "list_all p t" using assms(1) by (auto simp: list_all_iff)
  then show ?thesis using t(2) by (cases t) auto
qed

lemma comma_blocks_std:
  assumes "is_digit d" "list_all (\<lambda>c. is_digit c \<or> c = CHR ''.'') c1"
  shows "match_at [] stds_rx (''- **A'' @ [d] @ ''**: '' @ c1 @ '','' @ rest) = None"
proof (rule match_at_Nil)
  let ?R = "Seq (Lit '' Std - '') (Seq (Grp 3 (Plus num_cls)) (Seq (Lit '' (Reduced: '')
          (Seq (Grp 4 (Plus num_cls)) (Seq (Lit '') - Date: '') (Grp 5 (Plus date_cls))))))"
  have p: "atom_ok [] conc_cls = (\<lambda>c. is_digit c \<or> c = CHR ''.'')"
    by (auto simp: conc_cls_def)
  have np: "\<not> (is_digit (CHR '','') \<or> CHR '','' = CHR ''.'')" by (simp add: cls_defs)
  have nsp: "\<not> (is_digit (CHR '' '') \<or> CHR '' '' = CHR ''.'')" by (simp add: cls_defs)
  have z: "ms [] (Seq (Grp 2 (Plus conc_cls)) ?R) (c1 @ '','' @ rest, c) = []" for c
  proof -
    have "ms [] ?R x = []" if "x \<in> set (ms [] (Grp 2 (Plus conc_cls)) (c1 @ '','' @ rest, c))" for x
    proof -
      obtain s' c' where x: "x = (s', c')" by (cases x)
      have "s' \<in> set (greedy (\<lambda>c. is_digit c \<or> c = CHR ''.'') (c1 @ CHR '','' # rest))"
        using that x by (auto simp: p)
      then obtain y ys where y: "s' = y # ys" "(is_digit y \<or> y = CHR ''.'') \<or> y = CHR '',''"
        using greedy_stops [OF assms(2) np] by blast
      have "y \<noteq> CHR '' ''" using y(2) nsp by auto
      then have "\<not> starts_with [] '' Std - '' s'" using y(1) by (simp add: lit_eq_def)
      then show ?thesis unfolding x by (rule ms_lit_fail)
    qed
    then show ?thesis unfolding ms.simps(8) by (rule concat_map_Nil)
  qed
  let ?R1 = "Seq (Lit ''**: '') (Seq (Grp 2 (Plus conc_cls)) ?R)"
  let ?G1 = "Grp 1 (Seq (Lit ''A'') (One digit))"
  have g1: "ms [] ?G1 (''A'' @ [d] @ ''**: '' @ c1 @ '','' @ rest, []) =
              [(''**: '' @ c1 @ '','' @ rest, [(1, ''A'' @ [d])])]"
    using assms(1) by (simp add: digit_def lit_eq_def)
  have "ms [] stds_rx (''- **A'' @ [d] @ ''**: '' @ c1 @ '','' @ rest, []) =
          ms [] (Seq ?G1 ?R1) (''A'' @ [d] @ ''**: '' @ c1 @ '','' @ rest, [])"
    by (simp add: stds_rx_def lit_eq_def del: ms.simps(8) add: ms_lit_ok)
  also have "\<dots> = ms [] ?R1 (''**: '' @ c1 @ '','' @ rest, [(1, ''A'' @ [d])])"
    by (rule ms_seq_single [OF g1])
  also have "\<dots> = ms [] (Seq (Grp 2 (Plus conc_cls)) ?R) (c1 @ '','' @ rest, [(1, ''A'' @ [d])])"
    by (simp add: lit_eq_def del: ms.simps(8) add: ms_lit_ok)
  also have "\<dots> = []" by (rule z)
  finally show "ms [] stds_rx (''- **A'' @ [d] @ ''**: '' @ c1 @ '','' @ rest, []) = []" .
qed


lemma comma_line_no_match:
  assumes "is_digit d" "list_all (\<lambda>c. is_digit c \<or> c = CHR ''.'') c1" "CHR ''*'' \<notin> set rest"
  shows "findall [] stds_rx (''- **A'' @ [d] @ ''**: '' @ c1 @ '','' @ rest) = []"
proof -
  let ?pre = "''- **A'' @ [d] @ ''**: ''"
  let ?s = "c1 @ '','' @ rest"
  have dd: "d \<noteq> CHR ''-''" using assms(1) by (auto simp: cls_defs)
  have "findall [] stds_rx (?pre @ ?s) = findall [] stds_rx ?s"
  proof (rule findall_skip)
    fix j assume "j < length ?pre"
    then have "j < 10" by simp
    then have "j = 0 \<or> j = 1 \<or> j = 2 \<or> j = 3 \<or> j = 4 \<or> j = 5 \<or> j = 6
      \<or> j = 7 \<or> j = 8 \<or> j = 9" by arith
    then consider "j = 0" | "j = 1" | "j = 2" | "j = 3" | "j = 4" | "j = 5" | "j = 6"
      | "j = 7" | "j = 8" | "j = 9" by blast
    then show "match_at [] stds_rx (drop j (?pre @ ?s)) = None"
    proof cases
      case 1
      then show ?thesis using comma_blocks_std [OF assms(1,2), of rest] by simp
    next
      case 2
      then show ?thesis by (intro stds_needs_dash) (simp add: prefix_Cons)
    next
      case 3
      then show ?thesis by (intro stds_needs_dash) (simp add: prefix_Cons)
    next
      case 4
      then show ?thesis by (intro stds_needs_dash) (simp add: prefix_Cons)
    next
      case 5
      then show ?thesis by (intro stds_needs_dash) (simp add: prefix_Cons)
    next
      case 6
      then show ?thesis using dd by (intro stds_needs_dash) (simp add: prefix_Cons)
    next
      case 7
      then show ?thesis by (intro stds_needs_dash) (simp add: prefix_Cons)
    next
      case 8
      then show ?thesis by (intro stds_needs_dash) (simp add: prefix_Cons)
    next
      case 9
      then show ?thesis by (intro stds_needs_dash) (simp add: prefix_Cons)
    next
      case 10
      then show ?thesis by (intro stds_needs_dash) (simp add: prefix_Cons)
    qed
  qed
  moreover have "CHR ''*'' \<notin> set ?s"
    using assms(2,3) by (auto simp: list_all_iff cls_defs)
  ultimately show ?thesis using stds_needs_star [of ?s] by simp
qed

text \<open>
  C9. A standard-curve line whose concentration has a comma gives no standard-curve
  well: \<^verbatim>\<open>[\d\.]+\<close> stops at the comma, where \<^verbatim>\<open>" Std - "\<close> is required. The
  line is written with the digit of its well, the part of the concentration before
  the first comma, and what follows that comma, in which no other well begins. Alone
  it gives no well, and among other lines it adds nothing to theirs.
\<close>

theorem comma_concentration_no_well:
  assumes "is_digit d" and "list_all (\<lambda>c. is_digit c \<or> c = CHR ''.'') c1"
    and "CHR ''*'' \<notin> set rest"
  shows "standard_curve_wells_of (''- **A'' @ [d] @ ''**: '' @ c1 @ '','' @ rest) = Inr []
         \<and> standard_curve_wells_of
              (py_join (before @ (''- **A'' @ [d] @ ''**: '' @ c1 @ '','' @ rest) # after))
             = standard_curve_wells_of (py_join (before @ after))"
proof -
  have n: "findall [] stds_rx (''- **A'' @ [d] @ ''**: '' @ c1 @ '','' @ rest) = []"
    using assms by (rule comma_line_no_match)
  have "findall [] stds_rx
          (py_join (before @ (''- **A'' @ [d] @ ''**: '' @ c1 @ '','' @ rest) # after))
        = findall [] stds_rx (py_join (before @ after))"
    using n by (simp add: findall_join [OF nl_free_stds stds_empty])
  then show ?thesis using n by (simp add: standard_curve_wells_of_def)
qed


theorem comma_concentration_no_well_witness:
  "is_digit (CHR ''1'') \<and> list_all (\<lambda>c. is_digit c \<or> c = CHR ''.'') ''1''
   \<and> CHR ''*'' \<notin> set ''000 Std - 5.0 (Reduced: 4.0) - Date: 01-01-2024 10:00:00''
   \<and> comma_line = ''- **A'' @ [CHR ''1''] @ ''**: '' @ ''1'' @ '','' @
         ''000 Std - 5.0 (Reduced: 4.0) - Date: 01-01-2024 10:00:00''
   \<and> standard_curve_wells_of comma_line = Inr []"
proof -
  have a: "is_digit (CHR ''1'')" by (simp add: cls_defs)
  have b: "list_all (\<lambda>c. is_digit c \<or> c = CHR ''.'') ''1''" by (simp add: cls_defs)
  have c: "CHR ''*'' \<notin> set ''000 Std - 5.0 (Reduced: 4.0) - Date: 01-01-2024 10:00:00''"
    by simp
  have d: "comma_line = ''- **A'' @ [CHR ''1''] @ ''**: '' @ ''1'' @ '','' @
         ''000 Std - 5.0 (Reduced: 4.0) - Date: 01-01-2024 10:00:00''"
    by (simp add: comma_line_def)
  have "standard_curve_wells_of comma_line = Inr []"
    unfolding d using comma_concentration_no_well [OF a b c] by blast
  then show ?thesis using a b c d by blast
qed

section \<open>A table without a blank line after it\<close>

lemma suffix_prefix_sublist: "suffix s' b \<Longrightarrow> prefix xs s' \<Longrightarrow> sublist xs b"
  by (auto simp: suffix_def prefix_def)

lemma blank_line_needed:
  assumes "\<not> sublist [newline, newline] b"
  shows "ms [DOTALL] (Seq (Grp 1 (PlusLazy Dot)) (Lit [newline, newline])) (b, c) = []"
  unfolding ms_grp_lazy
proof (rule concat_map_Nil)
  fix s' assume "s' \<in> set (lazy (atom_ok [DOTALL] Dot) b)"
  then have "suffix s' b" by (rule lazy_suffix)
  then have "\<not> prefix [newline, newline] s'" using assms suffix_prefix_sublist by blast
  then have "\<not> starts_with [DOTALL] [newline, newline] s'" by (simp add: starts_with_prefix_cs)
  then show "ms [DOTALL] (Lit [newline, newline]) (s', (1, take (length b - length s') b) # c) = []"
    by simp
qed

lemma table_match_None:
  assumes "\<And>b. t = table_heading @ b \<Longrightarrow> \<not> sublist [newline, newline] b"
  shows "match_at [DOTALL] table_rx t = None"
proof (rule match_at_Nil)
  let ?R = "Seq (Grp 1 (PlusLazy Dot)) (Lit [newline, newline])"
  have r: "table_rx = Seq (Lit table_heading) ?R" by (simp add: table_rx_def table_heading_def)
  show "ms [DOTALL] table_rx (t, []) = []"
  proof (cases "prefix table_heading t")
    case False
    then have "\<not> starts_with [DOTALL] table_heading t" by (simp add: starts_with_prefix_cs)
    then show ?thesis unfolding r by (rule ms_lit_fail)
  next
    case True
    then obtain b where b: "t = table_heading @ b" by (auto simp: prefix_def)
    have "starts_with [DOTALL] table_heading t" using True by (simp add: starts_with_prefix_cs)
    then have "ms [DOTALL] table_rx (t, []) = ms [DOTALL] ?R (drop (length table_heading) t, [])"
      unfolding r by (rule ms_lit_ok)
    also have "\<dots> = ms [DOTALL] ?R (b, [])" using b by simp
    also have "\<dots> = []" using assms [OF b] by (rule blank_line_needed)
    finally show ?thesis .
  qed
qed

lemma heading_then_blank_iff:
  "heading_then_blank t \<longleftrightarrow>
     (\<exists>a b. t = a @ table_heading @ b \<and> sublist [newline, newline] b)"
proof
  assume "heading_then_blank t"
  then obtain s where s: "suffix s t" "prefix table_heading s"
      "sublist [newline, newline] (drop (length table_heading) s)"
    by (auto simp: heading_then_blank_def list_ex_iff)
  obtain a where a: "t = a @ s" using s(1) by (auto simp: suffix_def)
  obtain b where b: "s = table_heading @ b" using s(2) by (auto simp: prefix_def)
  show "\<exists>a b. t = a @ table_heading @ b \<and> sublist [newline, newline] b"
    using a b s(3) by auto
next
  assume "\<exists>a b. t = a @ table_heading @ b \<and> sublist [newline, newline] b"
  then obtain a b where ab: "t = a @ table_heading @ b" "sublist [newline, newline] b"
    by blast
  have "suffix (table_heading @ b) t" using ab(1) by (simp add: suffix_def)
  then have "table_heading @ b \<in> set (suffixes t)" by simp
  moreover have "prefix table_heading (table_heading @ b)" by simp
  moreover have "sublist [newline, newline] (drop (length table_heading) (table_heading @ b))"
    using ab(2) by simp
  ultimately show "heading_then_blank t"
    unfolding heading_then_blank_def list_ex_iff by blast
qed

text \<open>
  C10. When no occurrence of the heading \<^verbatim>\<open>## Standards Table\<close> is followed, anywhere
  after it, by a blank line (two line breaks in a row), the table pattern does not
  match and the table of the record stays empty: no headers, no rows.
\<close>

theorem unterminated_table_not_extracted:
  assumes "\<not> heading_then_blank page_content"
  shows "standards_table_of page_content = Inr \<lparr>headers = [], data = []\<rparr>
         \<and> (\<forall>r. parse_page_content_to_json page_content = Inr r \<longrightarrow>
               headers (standards_table r) = [] \<and> data (standards_table r) = [])"
proof -
  have "search [DOTALL] table_rx page_content = None"
  proof (rule search_None)
    fix j assume "j \<le> length page_content"
    show "match_at [DOTALL] table_rx (drop j page_content) = None"
    proof (rule table_match_None)
      fix b assume "drop j page_content = table_heading @ b"
      then have "page_content = take j page_content @ table_heading @ b"
        by (metis append_take_drop_id)
      then show "\<not> sublist [newline, newline] b"
        using assms heading_then_blank_iff by blast
    qed
  qed
  then have t: "standards_table_of page_content = Inr \<lparr>headers = [], data = []\<rparr>"
    by (simp add: standards_table_of_def)
  show ?thesis using t parse_table by fastforce
qed

theorem unterminated_table_not_extracted_witness:
  "\<not> heading_then_blank unterminated_table_text
   \<and> standards_table_of unterminated_table_text = Inr \<lparr>headers = [], data = []\<rparr>"
proof -
  have n: "\<not> sublist [newline, newline] unterminated_table_text"
    by (simp add: unterminated_table_text_def newline_def sublist_Cons_right prefix_Cons)
  have h: "\<not> heading_then_blank unterminated_table_text"
  proof
    assume "heading_then_blank unterminated_table_text"
    then obtain a b where e: "unterminated_table_text = a @ table_heading @ b"
        and s: "sublist [newline, newline] b"
      using heading_then_blank_iff by blast
    have "sublist [newline, newline] ((a @ table_heading) @ b)"
      using s by (metis sublist_append)
    then show False using n e by simp
  qed
  show ?thesis using h unterminated_table_not_extracted [OF h] by blast
qed

section \<open>The first occurrence of a field\<close>






























section \<open>The block of the standards table\<close>

lemma sublist_nl_line:
  assumes "l \<noteq> []" "newline \<notin> set l"
  shows "sublist [newline, newline] (l @ newline # t) \<longleftrightarrow> sublist [newline, newline] (newline # t)"
  using assms
proof (induction l)
  case Nil
  then show ?case by simp
next
  case (Cons x l)
  show ?case
  proof (cases "l = []")
    case True
    then show ?thesis using Cons.prems by (simp add: sublist_Cons_right prefix_Cons)
  next
    case False
    then have "sublist [newline, newline] (l @ newline # t) \<longleftrightarrow> sublist [newline, newline] (newline # t)"
      using Cons by simp
    then show ?thesis using Cons.prems by (simp add: sublist_Cons_right prefix_Cons)
  qed
qed

lemma no_blank_join:
  assumes "\<forall>l \<in> set ls. l \<noteq> [] \<and> newline \<notin> set l" "ls \<noteq> []"
  shows "\<not> sublist [newline, newline] (py_join ls @ [newline])"
  using assms
proof (induction ls rule: py_join.induct)
  case 1
  then show ?case by simp
next
  case (2 l)
  then have "sublist [newline, newline] (l @ newline # []) \<longleftrightarrow> sublist [newline, newline] (newline # [])"
    by (intro sublist_nl_line) auto
  then show ?case by (simp add: sublist_Cons_right prefix_Cons)
next
  case (3 l v va)
  have a: "sublist [newline, newline] (l @ newline # (py_join (v # va) @ [newline]))
        \<longleftrightarrow> sublist [newline, newline] (newline # (py_join (v # va) @ [newline]))"
    using 3(2) by (intro sublist_nl_line) auto
  have b: "\<not> sublist [newline, newline] (py_join (v # va) @ [newline])" using 3 by simp
  have "v \<noteq> [] \<and> newline \<notin> set v" using 3(2) by simp
  then have c: "\<not> prefix [newline] (py_join (v # va) @ [newline])"
    by (cases v; cases va) (auto simp: prefix_Cons)
  show ?case using a b c by (simp add: sublist_Cons_right prefix_Cons)
qed

lemma py_split_line: "sep \<notin> set l \<Longrightarrow> py_split sep (l @ sep # t) = l # py_split sep t"
  by (induction l) auto

lemma py_split_single: "sep \<notin> set l \<Longrightarrow> py_split sep l = [l]"
  by (induction l) auto

lemma py_split_join:
  "\<forall>l \<in> set ls. newline \<notin> set l \<Longrightarrow> ls \<noteq> [] \<Longrightarrow> py_split newline (py_join ls) = ls"
  by (induction ls rule: py_join.induct) (auto simp: py_split_line py_split_single)

lemma py_strip_id:
  assumes "s \<noteq> []" "\<not> is_space (hd s)" "\<not> is_space (last s)"
  shows "py_strip s = s"
proof -
  have a: "dropWhile is_space s = s" using assms(1,2) by (cases s) auto
  have "rev s \<noteq> [] \<and> \<not> is_space (hd (rev s))" using assms(1,3) by (simp add: hd_rev)
  then have "dropWhile is_space (rev s) = rev s" by (cases "rev s") auto
  then show ?thesis using a by (simp add: py_strip_def)
qed

lemma table_match:
  assumes "body \<noteq> []" "\<not> sublist [newline, newline] (body @ [newline])"
  shows "match_at [DOTALL] table_rx (table_heading @ body @ [newline, newline] @ post)
           = Some (post, [(1, body)])"
proof -
  let ?nn = "[newline, newline]"
  have r: "table_rx = Seq (Lit table_heading) (Seq (Grp 1 (PlusLazy Dot)) (Lit ?nn))"
    by (simp add: table_rx_def table_heading_def)
  have dots: "list_all (atom_ok [DOTALL] Dot) body" by (simp add: list_all_iff)
  have fail: "ms [DOTALL] (Lit ?nn) (drop k body @ ?nn @ post, c') = []"
    if "0 < k" "k < length body" for k c'
  proof -
    have "\<not> prefix ?nn (drop k body @ ?nn @ post)"
    proof
      assume "prefix ?nn (drop k body @ ?nn @ post)"
      then have "prefix ?nn ((drop k body @ [newline]) @ newline # post)" by simp
      moreover have "length ?nn \<le> length (drop k body @ [newline])" using that(2) by simp
      ultimately have "prefix ?nn (drop k body @ [newline])" by (rule prefix_short)
      then have "sublist ?nn (take k body @ (drop k body @ [newline]))"
        by (metis prefix_imp_sublist sublist_append)
      then show False using assms(2) by (metis append_assoc append_take_drop_id)
    qed
    then show ?thesis by (simp add: starts_with_prefix_cs)
  qed
  obtain more where m: "ms [DOTALL] (Seq (Grp 1 (PlusLazy Dot)) (Lit ?nn)) (body @ ?nn @ post, [])
      = ms [DOTALL] (Lit ?nn) (?nn @ post, (1, body) # []) @ more"
    using grp_lazy_first [OF dots assms(1) fail] by blast
  have "starts_with [DOTALL] table_heading (table_heading @ body @ ?nn @ post)"
    by (simp add: starts_with_prefix_cs)
  then have "ms [DOTALL] table_rx (table_heading @ body @ ?nn @ post, [])
      = ms [DOTALL] (Seq (Grp 1 (PlusLazy Dot)) (Lit ?nn))
          (drop (length table_heading) (table_heading @ body @ ?nn @ post), [])"
    unfolding r by (rule ms_lit_ok)
  also have "\<dots> = ms [DOTALL] (Lit ?nn) (?nn @ post, (1, body) # []) @ more"
    using m by simp
  also have "\<dots> = (post, [(1, body)]) # more" by (simp add: lit_eq_def)
  finally show ?thesis by (rule match_at_hd)
qed

lemma heading_first:
  assumes "\<not> sublist table_heading (pre @ butlast table_heading)" "j < length pre"
  shows "match_at [DOTALL] table_rx (drop j (pre @ table_heading @ rest)) = None"
proof (rule match_at_Nil)
  have r: "table_rx = Seq (Lit table_heading) (Seq (Grp 1 (PlusLazy Dot)) (Lit [newline, newline]))"
    by (simp add: table_rx_def table_heading_def)
  have h: "table_heading = butlast table_heading @ [last table_heading]"
    by (simp add: table_heading_def)
  have "\<not> prefix table_heading (drop j (pre @ table_heading @ rest))"
  proof
    assume p: "prefix table_heading (drop j (pre @ table_heading @ rest))"
    have "drop j (pre @ table_heading @ rest) =
            drop j (pre @ butlast table_heading) @ (last table_heading # rest)"
      using assms(2) h by (metis append.assoc append_Cons append_Nil drop_append length_append less_imp_le_nat diff_is_0_eq' drop0 trans_le_add1 less_or_eq_imp_le)
    moreover have "length table_heading \<le> length (drop j (pre @ butlast table_heading))"
      using assms(2) by (simp add: table_heading_def)
    ultimately have "prefix table_heading (drop j (pre @ butlast table_heading))"
      using p prefix_short by metis
    then have "sublist table_heading (take j (pre @ butlast table_heading) @ drop j (pre @ butlast table_heading))"
      by (metis prefix_imp_sublist sublist_append)
    then show False using assms(1) by (metis append_take_drop_id)
  qed
  then have "\<not> starts_with [DOTALL] table_heading (drop j (pre @ table_heading @ rest))"
    by (simp add: starts_with_prefix_cs)
  then show "ms [DOTALL] table_rx (drop j (pre @ table_heading @ rest), []) = []"
    unfolding r by (rule ms_lit_fail)
qed

lemma table_search:
  assumes "\<not> sublist table_heading (pre @ butlast table_heading)"
    "body \<noteq> []" "\<not> sublist [newline, newline] (body @ [newline])"
  shows "search [DOTALL] table_rx (pre @ table_heading @ body @ [newline, newline] @ post)
           = Some [(1, body)]"
proof -
  have "search [DOTALL] table_rx (pre @ table_heading @ body @ [newline, newline] @ post)
      = search [DOTALL] table_rx (table_heading @ body @ [newline, newline] @ post)"
    by (rule search_skip) (rule heading_first [OF assms(1)])
  then show ?thesis using search_hit [OF table_match [OF assms(2,3), of post]] by simp
qed

lemma hd_py_join: "ls \<noteq> [] \<Longrightarrow> hd ls \<noteq> [] \<Longrightarrow> hd (py_join ls) = hd (hd ls)"
  by (induction ls rule: py_join.induct) auto

lemma py_join_last_not_Nil: "ls \<noteq> [] \<Longrightarrow> last ls \<noteq> [] \<Longrightarrow> py_join ls \<noteq> []"
  by (induction ls rule: py_join.induct) auto

lemma last_py_join: "ls \<noteq> [] \<Longrightarrow> last ls \<noteq> [] \<Longrightarrow> last (py_join ls) = last (last ls)"
proof (induction ls rule: py_join.induct)
  case 1
  then show ?case by simp
next
  case (2 l)
  then show ?case by simp
next
  case (3 l v va)
  then have "py_join (v # va) \<noteq> []" by (intro py_join_last_not_Nil) auto
  then show ?case using 3 by simp
qed

lemma py_join_not_Nil: "ls \<noteq> [] \<Longrightarrow> hd ls \<noteq> [] \<Longrightarrow> py_join ls \<noteq> []"
  by (induction ls rule: py_join.induct) auto

lemma table_of_lines:
  assumes first: "\<not> sublist table_heading (pre @ butlast table_heading)"
    and lines: "\<forall>l \<in> set (h # sp # rows). l \<noteq> [] \<and> newline \<notin> set l"
    and ends: "\<not> is_space (hd h)" "\<not> is_space (last (last (h # sp # rows)))"
  shows "standards_table_of
           (pre @ table_heading @ py_join (h # sp # rows) @ [newline, newline] @ post)
         = andthen (map_err (table_row (cells h)) rows)
             (\<lambda>rs. Inr \<lparr>headers = cells h, data = rs\<rparr>)"
proof -
  let ?body = "py_join (h # sp # rows)"
  have ne: "?body \<noteq> []" using lines by (intro py_join_not_Nil) auto
  have nb: "\<not> sublist [newline, newline] (?body @ [newline])"
    using lines by (intro no_blank_join) auto
  have s: "search [DOTALL] table_rx (pre @ table_heading @ ?body @ [newline, newline] @ post)
             = Some [(1, ?body)]"
    using first ne nb by (rule table_search)
  have "hd ?body = hd h" using lines hd_py_join [of "h # sp # rows"] by simp
  moreover have "last (h # sp # rows) \<noteq> []" using lines by (metis last_in_set list.distinct(1))
  then have "last ?body = last (last (h # sp # rows))" by (intro last_py_join) auto
  ultimately have st: "py_strip ?body = ?body" using ne ends by (intro py_strip_id) auto
  have sp: "py_split newline ?body = h # sp # rows"
    using lines by (intro py_split_join) auto
  show ?thesis
    unfolding standards_table_of_def s by (simp add: group_def st sp del: py_join.simps)
qed



section \<open>Order of the output\<close>

lemma wells_by_line:
  assumes nf: "nl_free [] rx" and e: "match_at [] rx [] = None"
    and m: "map_err f (findall [] rx page_content) = Inr ws"
  shows "\<exists>wss. list_all2 (\<lambda>l zs. map_err f (findall [] rx l) = Inr zs)
                 (py_split newline page_content) wss \<and> ws = concat wss"
proof -
  have "map_err f (concat (map (findall [] rx) (py_split newline page_content))) = Inr ws"
    using m findall_lines [OF nf e, of page_content] by simp
  then obtain yss where
    "list_all2 (\<lambda>xs zs. map_err f xs = Inr zs) (map (findall [] rx) (py_split newline page_content)) yss"
    "ws = concat yss"
    using map_err_concat by blast
  then show ?thesis by (auto simp: list_all2_map1)
qed

text \<open>
  C8. Output follows the text. The standard-curve wells are the wells of the first
  line, then those of the second line, and so on, each line giving what it gives when
  parsed alone; the same holds for the control and sample wells; nothing is merged or
  dropped, so a repeated line gives repeated entries. The rows of the table are the
  rows of its data lines, one for each line and in their order.
\<close>

theorem output_in_line_order:
  assumes "parse_page_content_to_json page_content = Inr r"
  shows "(\<exists>wss. list_all2 (\<lambda>l ws. standard_curve_wells_of l = Inr ws)
                  (py_split newline page_content) wss
               \<and> standard_curve_wells (sample_data r) = concat wss)
       \<and> (\<exists>wss. list_all2 (\<lambda>l ws. control_and_sample_wells_of l = Inr ws)
                  (py_split newline page_content) wss
               \<and> control_and_sample_wells (sample_data r) = concat wss)
       \<and> (\<forall>pre h sp rows post.
             \<not> sublist table_heading (pre @ butlast table_heading)
             \<and> (\<forall>l \<in> set (h # sp # rows). l \<noteq> [] \<and> newline \<notin> set l)
             \<and> \<not> is_space (hd h) \<and> \<not> is_space (last (last (h # sp # rows)))
             \<and> page_content =
                 pre @ table_heading @ py_join (h # sp # rows) @ [newline, newline] @ post
             \<longrightarrow> headers (standards_table r) = cells h
                 \<and> list_all2 (\<lambda>line row. table_row (cells h) line = Inr row) rows
                      (data (standards_table r)))"
proof -
  have a: "\<exists>wss. list_all2 (\<lambda>l ws. standard_curve_wells_of l = Inr ws)
                  (py_split newline page_content) wss
               \<and> standard_curve_wells (sample_data r) = concat wss"
    unfolding standard_curve_wells_of_def
    by (rule wells_by_line [OF nl_free_stds stds_empty])
      (use parse_std_wells [OF assms] in \<open>simp add: standard_curve_wells_of_def\<close>)
  have b: "\<exists>wss. list_all2 (\<lambda>l ws. control_and_sample_wells_of l = Inr ws)
                  (py_split newline page_content) wss
               \<and> control_and_sample_wells (sample_data r) = concat wss"
    unfolding control_and_sample_wells_of_def
    by (rule wells_by_line [OF nl_free_controls controls_empty])
      (use parse_control_wells [OF assms] in \<open>simp add: control_and_sample_wells_of_def\<close>)
  have c: "headers (standards_table r) = cells h
           \<and> list_all2 (\<lambda>line row. table_row (cells h) line = Inr row) rows
                (data (standards_table r))"
    if "\<not> sublist table_heading (pre @ butlast table_heading)"
      "\<forall>l \<in> set (h # sp # rows). l \<noteq> [] \<and> newline \<notin> set l"
      "\<not> is_space (hd h)" "\<not> is_space (last (last (h # sp # rows)))"
      "page_content = pre @ table_heading @ py_join (h # sp # rows) @ [newline, newline] @ post"
    for pre h sp rows post
  proof -
    have "andthen (map_err (table_row (cells h)) rows)
            (\<lambda>rs. Inr \<lparr>headers = cells h, data = rs\<rparr>) = Inr (standards_table r)"
      using table_of_lines [OF that(1-4), of post] parse_table [OF assms] that(5) by simp
    then obtain rs where rs: "map_err (table_row (cells h)) rows = Inr rs"
      "standards_table r = \<lparr>headers = cells h, data = rs\<rparr>"
      by (auto simp: andthen_def split: sum.splits)
    show ?thesis using map_err_Inr [OF rs(1)] rs(2) by simp
  qed
  show ?thesis using a b c by blast
qed

theorem output_in_line_order_witness:
  "parse_page_content_to_json order_text = Inr order_record
   \<and> (\<exists>wss. list_all2 (\<lambda>l ws. standard_curve_wells_of l = Inr ws)
                (py_split newline order_text) wss
             \<and> standard_curve_wells (sample_data order_record) = concat wss)
   \<and> (\<exists>wss. list_all2 (\<lambda>l ws. control_and_sample_wells_of l = Inr ws)
                (py_split newline order_text) wss
             \<and> control_and_sample_wells (sample_data order_record) = concat wss)
   \<and> \<not> sublist table_heading ((py_join order_lines @ [newline]) @ butlast table_heading)
   \<and> list_all (\<lambda>l. l \<noteq> [] \<and> newline \<notin> set l) [''| A |'', ''|---|'', ''| 1 |'', ''| 1 |'']
   \<and> \<not> is_space (hd ''| A |'')
   \<and> \<not> is_space (last (last [''| A |'', ''|---|'', ''| 1 |'', ''| 1 |'']))
   \<and> headers (standards_table order_record) = cells ''| A |''
   \<and> list_all2 (\<lambda>line row. table_row (cells ''| A |'') line = Inr row) [''| 1 |'', ''| 1 |'']
        (data (standards_table order_record))"
proof -
  have p: "parse_page_content_to_json order_text = Inr order_record"
    by (simp add: order_text_def order_lines_def order_record_def table_heading_def
        parse_defs rx_defs float_defs cls_defs)
  have h1: "\<not> sublist table_heading ((py_join order_lines @ [newline]) @ butlast table_heading)"
    by (simp add: order_lines_def table_heading_def newline_def sublist_Cons_right prefix_Cons)
  have h2: "\<forall>l \<in> set [''| A |'', ''|---|'', ''| 1 |'', ''| 1 |'']. l \<noteq> [] \<and> newline \<notin> set l"
    by (simp add: newline_def)
  have h3: "\<not> is_space (hd ''| A |'')" by (simp add: cls_defs)
  have h4: "\<not> is_space (last (last [''| A |'', ''|---|'', ''| 1 |'', ''| 1 |'']))"
    by (simp add: cls_defs)
  have h5: "order_text = (py_join order_lines @ [newline]) @ table_heading
      @ py_join [''| A |'', ''|---|'', ''| 1 |'', ''| 1 |''] @ [newline, newline] @ []"
    by (simp add: order_text_def)
  note th = output_in_line_order [OF p]
  have a: "\<exists>wss. list_all2 (\<lambda>l ws. standard_curve_wells_of l = Inr ws)
                (py_split newline order_text) wss
             \<and> standard_curve_wells (sample_data order_record) = concat wss"
    using th by blast
  have b: "\<exists>wss. list_all2 (\<lambda>l ws. control_and_sample_wells_of l = Inr ws)
                (py_split newline order_text) wss
             \<and> control_and_sample_wells (sample_data order_record) = concat wss"
    using th by blast
  have c: "headers (standards_table order_record) = cells ''| A |''
     \<and> list_all2 (\<lambda>line row. table_row (cells ''| A |'') line = Inr row) [''| 1 |'', ''| 1 |'']
        (data (standards_table order_record))"
    using th h1 h2 h3 h4 h5 by blast
  have h2': "list_all (\<lambda>l. l \<noteq> [] \<and> newline \<notin> set l) [''| A |'', ''|---|'', ''| 1 |'', ''| 1 |'']"
    using h2 by (simp only: list_all_iff)
  show ?thesis using p a b c h1 h2' h3 h4 by blast
qed

end
